theory Spec2Isabelle
  imports Complex_Main
begin

section \<open>The bridge server (mcp-server/index.js)\<close>

text \<open>
  The server keeps three module-level variables: \<open>canvasClient\<close> (the single renderer
  slot), \<open>pendingRequests\<close> (a \<open>Map\<close> from request id to the \<open>resolve\<close>/\<open>reject\<close>
  pair of the promise that waits for it) and \<open>requestId\<close> (a counter). They are the
  first three fields of the record below. The other fields are the part of the runtime
  the handlers act on: the sockets the WebSocket server holds open, the envelopes
  written to sockets, the timers registered with \<open>setTimeout\<close>, a clock in
  milliseconds, the number of promises created so far, and the calls made to
  \<open>resolve\<close> and \<open>reject\<close>, in order.

  A promise is identified by its creation number. The \<open>{resolve, reject}\<close> pair stored
  in the map, and the \<open>reject\<close> captured by a timer's closure, are represented by the
  number of the promise they belong to. Payloads (\<open>params\<close>, \<open>result\<close>) are opaque to
  the server, so they are type parameters.
\<close>

type_synonym socket = nat
type_synonym promise = nat

datatype failure = NotConnected | TimedOut

fun message_of :: "failure \<Rightarrow> string" where
  "message_of NotConnected = ''Canvas not connected. Please open the tldraw app in your browser.''"
| "message_of TimedOut = ''Request timed out''"

text \<open>\<open>Resolved None\<close> is \<open>resolve(undefined)\<close>: a reply without a \<open>result\<close> field.\<close>

datatype 'r settlement = Resolved "'r option" | Rejected failure

record 'p envelope =
  env_id :: int
  env_command :: string
  env_params :: 'p

record ('p, 'r) bridge =
  canvasClient :: "socket option"
  pendingRequests :: "int \<rightharpoonup> promise"
  requestId :: int
  clients :: "socket set"
  outbox :: "(socket \<times> 'p envelope) list"
  timers :: "(nat \<times> int \<times> promise) list"
  clock :: nat
  promises :: nat
  settlements :: "(promise \<times> 'r settlement) list"

definition init :: "('p, 'r) bridge" where
  "init = \<lparr>canvasClient = None, pendingRequests = Map.empty, requestId = 0,
            clients = {}, outbox = [], timers = [], clock = 0, promises = 0,
            settlements = []\<rparr>"

text \<open>
  \<open>++requestId\<close> on a JavaScript number: exact up to \<open>2^53\<close>, where adding one rounds
  back to \<open>2^53\<close> and the counter stays. Starting from 0 no other value is reached.
\<close>

definition incr :: "int \<Rightarrow> int" where
  "incr n = (if n < 2 ^ 53 then n + 1 else n)"

definition TIMEOUT_MS :: nat where
  "TIMEOUT_MS = 10000"

text \<open>
  \<open>sendToCanvas\<close> (lines 80-100). The executor of \<open>new Promise\<close> runs at once: with an
  empty slot it rejects and returns; otherwise it takes the next id, stores the
  callbacks, writes the envelope to the stored socket and registers the timer.
  \<open>send\<close> of the \<open>ws\<close> library is taken as not throwing.
\<close>

definition sendToCanvas :: "string \<Rightarrow> 'p \<Rightarrow> ('p, 'r) bridge \<Rightarrow> promise \<times> ('p, 'r) bridge" where
  "sendToCanvas command params s =
    (let p = promises s; s0 = s\<lparr>promises := Suc p\<rparr> in
     case canvasClient s0 of
       None \<Rightarrow> (p, s0\<lparr>settlements := settlements s0 @ [(p, Rejected NotConnected)]\<rparr>)
     | Some ws \<Rightarrow>
         let i = incr (requestId s0);
             s1 = s0\<lparr>requestId := i\<rparr>;
             s2 = s1\<lparr>pendingRequests := (pendingRequests s1)(i \<mapsto> p)\<rparr>;
             s3 = s2\<lparr>outbox := outbox s2 @
                    [(ws, \<lparr>env_id = i, env_command = command, env_params = params\<rparr>)]\<rparr>;
             s4 = s3\<lparr>timers := timers s3 @ [(clock s3 + TIMEOUT_MS, i, p)]\<rparr>
         in (p, s4))"

text \<open>
  The callback given to \<open>setTimeout\<close> (lines 93-98), for the \<open>id\<close> and \<open>reject\<close> its
  closure captured.
\<close>

definition on_timeout :: "int \<Rightarrow> promise \<Rightarrow> ('p, 'r) bridge \<Rightarrow> ('p, 'r) bridge" where
  "on_timeout i p s =
    (if pendingRequests s i \<noteq> None
     then s\<lparr>pendingRequests := (pendingRequests s)(i := None),
            settlements := settlements s @ [(p, Rejected TimedOut)]\<rparr>
     else s)"

text \<open>
  What a socket delivers to the \<open>message\<close> handler. \<open>Garbled\<close> is data on which the body
  of the \<open>try\<close> throws (\<open>JSON.parse\<close> fails, or yields \<open>null\<close>); the \<open>catch\<close> logs it.
  Otherwise the message has an \<open>id\<close> and a \<open>result\<close>, each possibly absent. The keys of
  the map are values of the counter, and \<open>Map.has\<close> compares without coercion, so an
  \<open>id\<close> that is not an integer number behaves as an absent one: both are \<open>None\<close>.
\<close>

datatype 'r ws_data = Garbled | Reply (reply_id: "int option") (reply_result: "'r option")

text \<open>The \<open>message\<close> handler (lines 58-69). \<open>message.id &&\<close> fails on the number 0.\<close>

definition on_message :: "'r ws_data \<Rightarrow> ('p, 'r) bridge \<Rightarrow> ('p, 'r) bridge" where
  "on_message d s =
    (case d of
       Garbled \<Rightarrow> s
     | Reply mid res \<Rightarrow>
        (case mid of
           None \<Rightarrow> s
         | Some i \<Rightarrow>
            if i \<noteq> 0 \<and> pendingRequests s i \<noteq> None
            then (let p = the (pendingRequests s i) in
                  s\<lparr>pendingRequests := (pendingRequests s)(i := None),
                    settlements := settlements s @ [(p, Resolved res)]\<rparr>)
            else s))"

text \<open>The \<open>connection\<close> handler (lines 54-56) and the \<open>close\<close> handler (lines 71-74).\<close>

definition on_connection :: "socket \<Rightarrow> ('p, 'r) bridge \<Rightarrow> ('p, 'r) bridge" where
  "on_connection ws s = s\<lparr>canvasClient := Some ws\<rparr>"

definition on_close :: "('p, 'r) bridge \<Rightarrow> ('p, 'r) bridge" where
  "on_close s = s\<lparr>canvasClient := None\<rparr>"

text \<open>
  Time passing: the clock moves on by \<open>d\<close> milliseconds and the timers that have come due
  run in the order they were registered (the delay is constant, so this is the order of
  their due times). A fired timer is gone.
\<close>

definition is_due :: "nat \<Rightarrow> nat \<times> int \<times> promise \<Rightarrow> bool" where
  "is_due now tm = (fst tm \<le> now)"

fun fire :: "(nat \<times> int \<times> promise) list \<Rightarrow> ('p, 'r) bridge \<Rightarrow> ('p, 'r) bridge" where
  "fire [] s = s"
| "fire ((t, i, p) # due) s = fire due (on_timeout i p s)"

definition elapse :: "nat \<Rightarrow> ('p, 'r) bridge \<Rightarrow> ('p, 'r) bridge" where
  "elapse d s =
    (let now = clock s + d in
     fire (filter (is_due now) (timers s))
          (s\<lparr>clock := now, timers := filter (\<lambda>tm. \<not> is_due now tm) (timers s)\<rparr>))"

text \<open>
  The events of the server's event loop. A socket's handlers are registered when it
  connects; the library adds a socket to its set of clients on connection and drops it
  when it closes.
\<close>

datatype ('p, 'r) event =
    Connection socket
  | Message socket "'r ws_data"
  | Close socket
  | Call string 'p
  | Elapse nat

fun step :: "('p, 'r) event \<Rightarrow> ('p, 'r) bridge \<Rightarrow> ('p, 'r) bridge" where
  "step (Connection ws) s = on_connection ws (s\<lparr>clients := insert ws (clients s)\<rparr>)"
| "step (Message ws d) s = on_message d s"
| "step (Close ws) s = on_close (s\<lparr>clients := clients s - {ws}\<rparr>)"
| "step (Call command params) s = snd (sendToCanvas command params s)"
| "step (Elapse d) s = elapse d s"

fun run :: "('p, 'r) event list \<Rightarrow> ('p, 'r) bridge \<Rightarrow> ('p, 'r) bridge" where
  "run [] s = s"
| "run (e # es) s = run es (step e s)"

text \<open>The state of a promise: the first call of \<open>resolve\<close> or \<open>reject\<close> decides it.\<close>

definition outcome :: "('p, 'r) bridge \<Rightarrow> promise \<Rightarrow> 'r settlement option" where
  "outcome s p = map_of (settlements s) p"

fun is_connection :: "('p, 'r) event \<Rightarrow> bool" where
  "is_connection (Connection ws) = True"
| "is_connection e = False"

fun replies_to :: "int \<Rightarrow> ('p, 'r) event \<Rightarrow> bool" where
  "replies_to i (Message ws (Reply (Some j) res)) = (j = i)"
| "replies_to i e = False"

section \<open>The renderer side (src/useCanvasBridge.ts)\<close>

text \<open>
  Numbers are JavaScript numbers: IEEE 754 doubles, with rounded arithmetic, infinities
  and NaN. The functions below take the language's subtraction, its division and the
  value of a numeric literal as a parameter, over any type \<open>'n\<close> of numbers, so what is
  proved of them holds for the arithmetic the program runs on and does not depend on a
  model of it. \<open>a ?? b\<close> is \<open>nullish a b\<close>, with \<open>None\<close> for an absent (or \<open>null\<close>) field.
\<close>

record 'n js_arith =
  js_minus :: "'n \<Rightarrow> 'n \<Rightarrow> 'n"
  js_divide :: "'n \<Rightarrow> 'n \<Rightarrow> 'n"
  js_number :: "real \<Rightarrow> 'n"

definition nullish :: "'a option \<Rightarrow> 'a \<Rightarrow> 'a" where
  "nullish a b = (case a of None \<Rightarrow> b | Some v \<Rightarrow> v)"

datatype shapeId = ShapeId nat

datatype seg_type = Free | Straight

record 'n point_in =
  in_x :: 'n
  in_y :: 'n
  in_z :: "'n option"

record 'n point3 =
  pt_x :: 'n
  pt_y :: 'n
  pt_z :: 'n

text \<open>A segment as received: its \<open>points\<close> array may be missing.\<close>

record 'n segment_in =
  segin_type :: seg_type
  segin_points :: "'n point_in list option"

record 'n segment =
  seg_type :: seg_type
  seg_points :: "'n point3 list"

text \<open>The fields \<open>createShape\<close> reads from \<open>params\<close>; \<open>kind\<close>, \<open>x\<close> and \<open>y\<close> are required.\<close>

record 'n descriptor =
  d_kind :: string
  d_x :: 'n
  d_y :: 'n
  d_width :: "'n option"
  d_height :: "'n option"
  d_text :: "string option"
  d_endX :: "'n option"
  d_endY :: "'n option"
  d_points :: "'n point_in list option"
  d_segments :: "'n segment_in list option"
  d_color :: "string option"
  d_size :: "string option"
  d_isClosed :: "bool option"
  d_fill :: "string option"

text \<open>\<open>toRichText\<close> belongs to the canvas library; it is kept as a constructor.\<close>

datatype richText = toRichText string

record 'n vec =
  vec_x :: 'n
  vec_y :: 'n

record 'n linePoint =
  lp_id :: string
  lp_index :: string
  lp_x :: 'n
  lp_y :: 'n

datatype 'n props =
    GeoProps (geo: string) (geo_w: 'n) (geo_h: 'n)
  | RichTextProps (richText: richText)
  | ArrowProps (arrow_start: "'n vec") (arrow_end: "'n vec")
  | LineProps (line_a1: "'n linePoint") (line_a2: "'n linePoint")
  | DrawProps (draw_segments: "'n segment list") (draw_color: string) (draw_size: string)
      (draw_fill: string) (draw_dash: string) (draw_isComplete: bool)
      (draw_isClosed: bool) (draw_isPen: bool) (draw_scale: 'n)

record 'n shapePartial =
  sp_id :: shapeId
  sp_type :: string
  sp_x :: 'n
  sp_y :: 'n
  sp_props :: "'n props"

definition geoShape :: "shapeId \<Rightarrow> string \<Rightarrow> 'n \<Rightarrow> 'n \<Rightarrow> 'n \<Rightarrow> 'n \<Rightarrow> 'n shapePartial" where
  "geoShape shapeId g ax ay gw gh =
     \<lparr>sp_id = shapeId, sp_type = ''geo'', sp_x = ax, sp_y = ay, sp_props = GeoProps g gw gh\<rparr>"

definition with_z :: "'n js_arith \<Rightarrow> 'n point_in \<Rightarrow> 'n point3" where
  "with_z ar p = \<lparr>pt_x = in_x p, pt_y = in_y p, pt_z = nullish (in_z p) (js_number ar 0.5)\<rparr>"

datatype exn = TypeError | EditorError

text \<open>
  \<open>segments.map(seg => ({ type: seg.type, points: seg.points.map(...) }))\<close> (lines
  173-176): \<open>seg.points.map\<close> throws a \<open>TypeError\<close> on a segment without points, and
  the whole \<open>map\<close> with it. \<open>None\<close> is that throw.
\<close>

fun drawSegments_of :: "'n js_arith \<Rightarrow> 'n segment_in list \<Rightarrow> 'n segment list option" where
  "drawSegments_of ar [] = Some []"
| "drawSegments_of ar (seg # segs) =
     (case segin_points seg of
        None \<Rightarrow> None
      | Some pts \<Rightarrow>
         (case drawSegments_of ar segs of
            None \<Rightarrow> None
          | Some rest \<Rightarrow>
              Some (\<lparr>seg_type = segin_type seg, seg_points = map (with_z ar) pts\<rparr> # rest)))"

text \<open>
  The \<open>switch\<close> of \<open>createShape\<close> (lines 29-208) ends in one of three ways: an exception
  is thrown, the \<open>{ error }\<close> object is returned, or the shape record to create is
  built. A \<open>segments\<close> or \<open>points\<close> array is truthy also when empty.
\<close>

datatype 'n normalized = Thrown exn | Refused string | Normal "'n shapePartial"

definition shapePartial_of :: "'n js_arith \<Rightarrow> shapeId \<Rightarrow> 'n descriptor \<Rightarrow> 'n normalized" where
  "shapePartial_of ar shapeId params =
    (let kind = d_kind params;
         x = d_x params;
         y = d_y params;
         width = nullish (d_width params) (js_number ar 100);
         height = nullish (d_height params) (js_number ar 100);
         text = d_text params;
         endX = d_endX params;
         endY = d_endY params;
         minus = js_minus ar;
         half = (\<lambda>v. js_divide ar v (js_number ar 2))
     in
     if kind = ''rectangle'' then
       Normal (geoShape shapeId ''rectangle'' (minus x (half width)) (minus y (half height))
                 width height)
     else if kind = ''circle'' then
       Normal (geoShape shapeId ''ellipse'' (minus x (half width)) (minus y (half width))
                 width width)
     else if kind = ''ellipse'' then
       Normal (geoShape shapeId ''ellipse'' (minus x (half width)) (minus y (half height))
                 width height)
     else if kind = ''triangle'' then
       Normal (geoShape shapeId ''triangle'' (minus x (half width)) (minus y (half height))
                 width height)
     else if kind = ''star'' then
       Normal (geoShape shapeId ''star'' (minus x (half width)) (minus y (half height))
                 width height)
     else if kind = ''diamond'' then
       Normal (geoShape shapeId ''diamond'' (minus x (half width)) (minus y (half height))
                 width height)
     else if kind = ''hexagon'' then
       Normal (geoShape shapeId ''hexagon'' (minus x (half width)) (minus y (half height))
                 width height)
     else if kind = ''cloud'' then
       Normal (geoShape shapeId ''cloud'' (minus x (half width)) (minus y (half height))
                 width height)
     else if kind = ''text'' then
       Normal \<lparr>sp_id = shapeId, sp_type = ''text'', sp_x = x, sp_y = y,
               sp_props = RichTextProps (toRichText (nullish text ''Text''))\<rparr>
     else if kind = ''note'' then
       Normal \<lparr>sp_id = shapeId, sp_type = ''note'', sp_x = minus x (half width),
               sp_y = minus y (half height),
               sp_props = RichTextProps (toRichText (nullish text ''Note''))\<rparr>
     else if kind = ''arrow'' then
       Normal \<lparr>sp_id = shapeId, sp_type = ''arrow'', sp_x = x, sp_y = y,
               sp_props = ArrowProps \<lparr>vec_x = js_number ar 0, vec_y = js_number ar 0\<rparr>
                            \<lparr>vec_x = nullish endX (js_number ar 100),
                             vec_y = nullish endY (js_number ar 0)\<rparr>\<rparr>
     else if kind = ''line'' then
       Normal \<lparr>sp_id = shapeId, sp_type = ''line'', sp_x = x, sp_y = y,
               sp_props = LineProps
                 \<lparr>lp_id = ''a1'', lp_index = ''a1'', lp_x = js_number ar 0,
                   lp_y = js_number ar 0\<rparr>
                 \<lparr>lp_id = ''a2'', lp_index = ''a2'', lp_x = nullish endX (js_number ar 100),
                   lp_y = nullish endY (js_number ar 0)\<rparr>\<rparr>
     else if kind = ''draw'' \<or> kind = ''freehand'' then
       (let points = d_points params;
            segments = d_segments params;
            color = nullish (d_color params) ''black'';
            size = nullish (d_size params) ''m'';
            isClosed = nullish (d_isClosed params) False;
            fill = nullish (d_fill params) ''none''
        in
        case segments of
          Some segs \<Rightarrow>
           (case drawSegments_of ar segs of
              None \<Rightarrow> Thrown TypeError
            | Some drawSegments \<Rightarrow>
                Normal \<lparr>sp_id = shapeId, sp_type = ''draw'', sp_x = x, sp_y = y,
                        sp_props = DrawProps drawSegments
                          color size fill ''draw'' True isClosed False (js_number ar 1)\<rparr>)
        | None \<Rightarrow>
           (case points of
              Some pts \<Rightarrow>
                Normal \<lparr>sp_id = shapeId, sp_type = ''draw'', sp_x = x, sp_y = y,
                        sp_props = DrawProps
                          [\<lparr>seg_type = Free, seg_points = map (with_z ar) pts\<rparr>]
                          color size fill ''draw'' True isClosed False (js_number ar 1)\<rparr>
            | None \<Rightarrow> Refused ''Draw shape requires points or segments''))
     else Refused (''Unknown shape kind: '' @ kind))"

text \<open>What \<open>createShape\<close> and \<open>handleCommand\<close> return.\<close>

datatype 'n result =
    Error string
  | Created shapeId
  | Batch nat "'n result list"
  | Deleted nat
  | Shapes "'n shapePartial list"
  | Success

text \<open>
  The \<open>Editor\<close> of the canvas library is not part of the repository. The functions below
  take the methods they call as a parameter: any editor, with state \<open>'e\<close>. Its
  \<open>createShape\<close> validates what it is given and may throw: a call either returns or
  throws, and leaves a state either way. \<open>createShapeId\<close> draws a fresh id; the canvas
  state counts the ids drawn.
\<close>

datatype 'e attempt = Returns 'e | Throws 'e

record ('n, 'e) editor_api =
  api_createShape :: "'n shapePartial \<Rightarrow> 'e \<Rightarrow> 'e attempt"
  api_getCurrentPageShapes :: "'e \<Rightarrow> 'n shapePartial list"
  api_getSelectedShapes :: "'e \<Rightarrow> 'n shapePartial list"
  api_deleteShapes :: "shapeId list \<Rightarrow> 'e \<Rightarrow> 'e"
  api_undo :: "'e \<Rightarrow> 'e"
  api_redo :: "'e \<Rightarrow> 'e"
  api_zoomToFit :: "'e \<Rightarrow> 'e"

record 'e canvas =
  editor :: 'e
  idsDrawn :: nat

definition createShapeId :: "'e canvas \<Rightarrow> shapeId \<times> 'e canvas" where
  "createShapeId c = (ShapeId (idsDrawn c), c\<lparr>idsDrawn := Suc (idsDrawn c)\<rparr>)"

text \<open>
  \<open>createShape\<close> (lines 16-212). The id is drawn first; reading \<open>params.kind\<close> then
  throws a \<open>TypeError\<close> when \<open>params\<close> is \<open>null\<close> (\<open>None\<close>). An exception is \<open>Inl\<close>: it
  leaves \<open>createShape\<close> and every caller up to the \<open>catch\<close> of the message handler.
\<close>

definition createShape ::
  "'n js_arith \<Rightarrow> ('n, 'e) editor_api \<Rightarrow> 'e canvas \<Rightarrow> 'n descriptor option
     \<Rightarrow> (exn + 'n result) \<times> 'e canvas" where
  "createShape ar api c params =
    (let (shapeId, c1) = createShapeId c in
     case params of
       None \<Rightarrow> (Inl TypeError, c1)
     | Some ps \<Rightarrow>
        (case shapePartial_of ar shapeId ps of
           Thrown e \<Rightarrow> (Inl e, c1)
         | Refused msg \<Rightarrow> (Inr (Error msg), c1)
         | Normal shapePartial \<Rightarrow>
            (case api_createShape api shapePartial (editor c1) of
               Throws e \<Rightarrow> (Inl EditorError, c1\<lparr>editor := e\<rparr>)
             | Returns e \<Rightarrow> (Inr (Created shapeId), c1\<lparr>editor := e\<rparr>))))"

text \<open>
  \<open>shapes.map(shape => createShape(editor, shape))\<close> (line 223), left to right. There
  is no guard around the call: the first exception ends the \<open>map\<close>, and what was created
  before it stays.
\<close>

fun map_createShape ::
  "'n js_arith \<Rightarrow> ('n, 'e) editor_api \<Rightarrow> 'e canvas \<Rightarrow> 'n descriptor option list
     \<Rightarrow> (exn + 'n result list) \<times> 'e canvas" where
  "map_createShape ar api c [] = (Inr [], c)"
| "map_createShape ar api c (shape # shapes) =
     (case createShape ar api c shape of
        (Inl e, c1) \<Rightarrow> (Inl e, c1)
      | (Inr r, c1) \<Rightarrow>
         (case map_createShape ar api c1 shapes of
            (Inl e, c2) \<Rightarrow> (Inl e, c2)
          | (Inr rs, c2) \<Rightarrow> (Inr (r # rs), c2)))"

text \<open>
  A command's \<open>params\<close>: a shape descriptor, an object with a \<open>shapes\<close> array (whose
  entries may be \<open>null\<close>), an object with neither, or \<open>null\<close>.
\<close>

datatype 'n params =
    ShapeParams "'n descriptor"
  | BatchParams "'n descriptor option list"
  | NoParams
  | NullParams

record 'n command =
  cmd_id :: int
  cmd_command :: string
  cmd_params :: "'n params"

text \<open>
  \<open>handleCommand\<close> (lines 214-269). \<open>create_shape\<close> on an object without a \<open>kind\<close>
  reaches the default case of \<open>createShape\<close> with \<open>kind\<close> undefined; \<open>create_shapes\<close> on
  params without \<open>shapes\<close> throws on \<open>shapes.map\<close>.
\<close>

definition handleCommand ::
  "'n js_arith \<Rightarrow> ('n, 'e) editor_api \<Rightarrow> 'e canvas \<Rightarrow> 'n command
     \<Rightarrow> (exn + 'n result) \<times> 'e canvas" where
  "handleCommand ar api c command =
    (let cmd = cmd_command command; params = cmd_params command in
     if cmd = ''create_shape'' then
       (case params of
          ShapeParams shape \<Rightarrow> createShape ar api c (Some shape)
        | NullParams \<Rightarrow> createShape ar api c None
        | _ \<Rightarrow> (Inr (Error ''Unknown shape kind: undefined''), snd (createShapeId c)))
     else if cmd = ''create_shapes'' then
       (case params of
          BatchParams shapes \<Rightarrow>
            (case map_createShape ar api c shapes of
               (Inl e, c1) \<Rightarrow> (Inl e, c1)
             | (Inr results, c1) \<Rightarrow> (Inr (Batch (length shapes) results), c1))
        | _ \<Rightarrow> (Inl TypeError, c))
     else if cmd = ''clear'' then
       (let shapes = api_getCurrentPageShapes api (editor c);
            c1 = (if length shapes > 0
                  then c\<lparr>editor := api_deleteShapes api (map sp_id shapes) (editor c)\<rparr>
                  else c)
        in (Inr (Deleted (length shapes)), c1))
     else if cmd = ''get_shapes'' then
       (let shapes = api_getCurrentPageShapes api (editor c)
        in (Inr (Shapes (map (\<lambda>shape. \<lparr>sp_id = sp_id shape, sp_type = sp_type shape,
                                        sp_x = sp_x shape, sp_y = sp_y shape,
                                        sp_props = sp_props shape\<rparr>) shapes)), c))
     else if cmd = ''undo'' then
       (Inr Success, c\<lparr>editor := api_undo api (editor c)\<rparr>)
     else if cmd = ''redo'' then
       (Inr Success, c\<lparr>editor := api_redo api (editor c)\<rparr>)
     else if cmd = ''zoom_to_fit'' then
       (Inr Success, c\<lparr>editor := api_zoomToFit api (editor c)\<rparr>)
     else if cmd = ''delete_selected'' then
       (let selected = api_getSelectedShapes api (editor c);
            c1 = (if length selected > 0
                  then c\<lparr>editor := api_deleteShapes api (map sp_id selected) (editor c)\<rparr>
                  else c)
        in (Inr (Deleted (length selected)), c1))
     else (Inr (Error (''Unknown command: '' @ cmd)), c))"

text \<open>
  The renderer's \<open>onmessage\<close> (lines 282-291): the reply it sends, with the command's
  id, or none when \<open>handleCommand\<close> throws and the \<open>catch\<close> logs.
\<close>

definition onmessage ::
  "'n js_arith \<Rightarrow> ('n, 'e) editor_api \<Rightarrow> 'e canvas \<Rightarrow> 'n command
     \<Rightarrow> 'n result ws_data option \<times> 'e canvas" where
  "onmessage ar api c command =
    (case handleCommand ar api c command of
       (Inl e, c1) \<Rightarrow> (None, c1)
     | (Inr r, c1) \<Rightarrow> (Some (Reply (Some (cmd_id command)) (Some r)), c1))"

text \<open>
  Modelled from the spec: the canvas library's editor is missing from the sources; the
  spec names it as the owner of shape storage and selection. One editor to run the
  definitions on: the page is a list of shapes, the selection a list of ids, every
  shape is accepted, and \<open>undo\<close>, \<open>redo\<close> and \<open>zoomToFit\<close> leave both alone.
\<close>

record 'n page =
  pageShapes :: "'n shapePartial list"
  selectedIds :: "shapeId list"

definition page_api :: "('n, 'n page) editor_api" where
  "page_api =
    \<lparr>api_createShape = (\<lambda>sh e. Returns (e\<lparr>pageShapes := pageShapes e @ [sh]\<rparr>)),
     api_getCurrentPageShapes = pageShapes,
     api_getSelectedShapes = (\<lambda>e. filter (\<lambda>sh. sp_id sh \<in> set (selectedIds e)) (pageShapes e)),
     api_deleteShapes = (\<lambda>ids e.
        e\<lparr>pageShapes := filter (\<lambda>sh. sp_id sh \<notin> set ids) (pageShapes e),
          selectedIds := filter (\<lambda>i. i \<notin> set ids) (selectedIds e)\<rparr>),
     api_undo = (\<lambda>e. e),
     api_redo = (\<lambda>e. e),
     api_zoomToFit = (\<lambda>e. e)\<rparr>"

definition empty_canvas :: "'n page canvas" where
  "empty_canvas = \<lparr>editor = \<lparr>pageShapes = [], selectedIds = []\<rparr>, idsDrawn = 0\<rparr>"

definition box_kinds :: "string list" where
  "box_kinds = [''rectangle'', ''ellipse'', ''triangle'', ''star'', ''diamond'', ''hexagon'', ''cloud'']"







text \<open>A descriptor with the required fields only.\<close>

definition bare :: "string \<Rightarrow> 'n \<Rightarrow> 'n \<Rightarrow> 'n descriptor" where
  "bare k x y = \<lparr>d_kind = k, d_x = x, d_y = y, d_width = None, d_height = None,
     d_text = None, d_endX = None, d_endY = None, d_points = None, d_segments = None,
     d_color = None, d_size = None, d_isClosed = None, d_fill = None\<rparr>"

section \<open>Double-precision arithmetic\<close>

text \<open>
  The arithmetic of JavaScript numbers, to run the definitions on. A number is NaN, an
  infinity with its sign, or a finite value given by its sign (\<open>True\<close> for minus) and its
  magnitude; zero has a sign too. The result of an operation is the exact result rounded
  to the nearest double, a tie going to the even significand: 53 significant bits, the
  smallest spacing \<open>2^-1074\<close>, and infinity from \<open>2^1024\<close> on.
\<close>

datatype number = NaN | Infinity bool | Finite bool real

definition pow2 :: "int \<Rightarrow> real" where
  "pow2 e = (if 0 \<le> e then 2 ^ nat e else 1 / 2 ^ nat (- e))"

text \<open>The position of the leading bit: \<open>ilog2 n\<close> for an integer \<open>n \<ge> 1\<close>.\<close>

function ilog2 :: "int \<Rightarrow> int" where
  "ilog2 n = (if n \<le> 1 then 0 else 1 + ilog2 (n div 2))"
  by pat_completeness auto
termination
  by (relation "measure nat") auto

declare ilog2.simps [simp del]

text \<open>For \<open>m > 0\<close>, the \<open>k\<close> with \<open>2^k \<le> m < 2^(k+1)\<close>.\<close>

definition floorlog2 :: "real \<Rightarrow> int" where
  "floorlog2 m = (if 1 \<le> m then ilog2 \<lfloor>m\<rfloor> else - 1 - ilog2 (\<lceil>1 / m\<rceil> - 1))"

definition round_even :: "real \<Rightarrow> int" where
  "round_even r =
     (let f = \<lfloor>r\<rfloor>; d = r - of_int f
      in if d < 1 / 2 then f else if 1 / 2 < d then f + 1 else if even f then f else f + 1)"

text \<open>The double nearest to the magnitude \<open>m \<ge> 0\<close>, with sign \<open>s\<close>.\<close>

definition nearest :: "bool \<Rightarrow> real \<Rightarrow> number" where
  "nearest s m =
     (if m = 0 then Finite s 0
      else let e = max (floorlog2 m - 52) (- 1074);
               v = of_int (round_even (m / pow2 e)) * pow2 e
           in if 2 ^ 1024 \<le> v then Infinity s else Finite s v)"

definition signed :: "bool \<Rightarrow> real \<Rightarrow> real" where
  "signed s m = (if s then - m else m)"

fun ieee_minus :: "number \<Rightarrow> number \<Rightarrow> number" where
  "ieee_minus NaN b = NaN"
| "ieee_minus a NaN = NaN"
| "ieee_minus (Infinity s) (Infinity t) = (if s = t then NaN else Infinity s)"
| "ieee_minus (Infinity s) (Finite t b) = Infinity s"
| "ieee_minus (Finite s a) (Infinity t) = Infinity (\<not> t)"
| "ieee_minus (Finite s a) (Finite t b) =
     (let r = signed s a - signed t b
      in if r = 0 then Finite (s \<and> \<not> t \<and> a = 0) 0 else nearest (r < 0) \<bar>r\<bar>)"

fun ieee_divide :: "number \<Rightarrow> number \<Rightarrow> number" where
  "ieee_divide NaN b = NaN"
| "ieee_divide a NaN = NaN"
| "ieee_divide (Infinity s) (Infinity t) = NaN"
| "ieee_divide (Infinity s) (Finite t b) = Infinity (s \<noteq> t)"
| "ieee_divide (Finite s a) (Infinity t) = Finite (s \<noteq> t) 0"
| "ieee_divide (Finite s a) (Finite t b) =
     (if b = 0 then (if a = 0 then NaN else Infinity (s \<noteq> t))
      else nearest (s \<noteq> t) (a / b))"

definition ieee_number :: "real \<Rightarrow> number" where
  "ieee_number r = nearest (r < 0) \<bar>r\<bar>"

definition ieee :: "number js_arith" where
  "ieee = \<lparr>js_minus = ieee_minus, js_divide = ieee_divide, js_number = ieee_number\<rparr>"

section \<open>Invariants of the bridge server\<close>

text \<open>The promises on which \<open>resolve\<close> or \<open>reject\<close> has been called.\<close>

definition settled :: "('p, 'r) bridge \<Rightarrow> promise set" where
  "settled s = fst ` set (settlements s)"

text \<open>Removing the entry of id \<open>i\<close> and settling promise \<open>p\<close>: what a reply and a timeout do.\<close>

definition settle :: "int \<Rightarrow> promise \<Rightarrow> 'r settlement \<Rightarrow> ('p, 'r) bridge \<Rightarrow> ('p, 'r) bridge" where
  "settle i p x s = s\<lparr>pendingRequests := (pendingRequests s)(i := None),
                      settlements := settlements s @ [(p, x)]\<rparr>"

text \<open>
  The invariant, for a list \<open>ts\<close> of timers still to fire: pending ids are values the
  counter has taken, and their promises are unsettled; no promise waits under two ids; a
  timer's promise is either pending under the timer's id or settled, with the id gone;
  settled promises exist and are settled once; every promise created is pending or
  settled; every pending entry has a timer, due within the timeout.
\<close>

definition good :: "(nat \<times> int \<times> promise) list \<Rightarrow> ('p, 'r) bridge \<Rightarrow> bool" where
  "good ts s \<longleftrightarrow>
     (\<forall>i p. pendingRequests s i = Some p \<longrightarrow>
         0 < i \<and> i \<le> requestId s \<and> p < promises s \<and> p \<notin> settled s)
   \<and> (\<forall>i j p. pendingRequests s i = Some p \<and> pendingRequests s j = Some p \<longrightarrow> i = j)
   \<and> (\<forall>tm \<in> set ts. fst (snd tm) \<le> requestId s \<and>
         (pendingRequests s (fst (snd tm)) = Some (snd (snd tm))
          \<or> pendingRequests s (fst (snd tm)) = None \<and> snd (snd tm) \<in> settled s))
   \<and> (\<forall>p \<in> settled s. p < promises s)
   \<and> distinct (map fst (settlements s))
   \<and> (\<forall>p < promises s. (\<exists>i. pendingRequests s i = Some p) \<or> p \<in> settled s)
   \<and> (\<forall>i p. pendingRequests s i = Some p \<longrightarrow>
         (\<exists>t. (t, i, p) \<in> set ts \<and> t \<le> clock s + TIMEOUT_MS))
   \<and> 0 \<le> requestId s"

definition inv :: "('p, 'r) bridge \<Rightarrow> bool" where
  "inv s = good (timers s) s"

text \<open>A reply matches when its id is a key of the map.\<close>

fun matching :: "('p, 'r) bridge \<Rightarrow> 'r ws_data \<Rightarrow> bool" where
  "matching s Garbled = False"
| "matching s (Reply None res) = False"
| "matching s (Reply (Some i) res) = (pendingRequests s i \<noteq> None)"

text \<open>
  Request \<open>i\<close> of promise \<open>p\<close>, with deadline \<open>T\<close>, as long as no reply for it arrives:
  before \<open>T\<close> it is pending with its timer registered, from \<open>T\<close> on it is gone and the
  promise has been rejected with the timeout.
\<close>

definition awaits :: "nat \<Rightarrow> int \<Rightarrow> promise \<Rightarrow> ('p, 'r) bridge \<Rightarrow> bool" where
  "awaits T i p s \<longleftrightarrow>
     i \<le> requestId s
   \<and> (\<forall>tm \<in> set (timers s). fst (snd tm) = i \<longrightarrow> tm = (T, i, p))
   \<and> (if clock s < T
      then pendingRequests s i = Some p \<and> (T, i, p) \<in> set (timers s)
      else pendingRequests s i = None \<and> (p, Rejected TimedOut) \<in> set (settlements s))"

section \<open>Properties of the shape normalizer and the command executor\<close>

subsection \<open>What each kind is normalized to\<close>

lemma createShape_eval:
  "createShape ar api c (Some params) =
     (case shapePartial_of ar (ShapeId (idsDrawn c)) params of
        Thrown e \<Rightarrow> (Inl e, c\<lparr>idsDrawn := Suc (idsDrawn c)\<rparr>)
      | Refused msg \<Rightarrow> (Inr (Error msg), c\<lparr>idsDrawn := Suc (idsDrawn c)\<rparr>)
      | Normal sh \<Rightarrow>
         (case api_createShape api sh (editor c) of
            Returns e \<Rightarrow> (Inr (Created (ShapeId (idsDrawn c))),
                           c\<lparr>idsDrawn := Suc (idsDrawn c), editor := e\<rparr>)
          | Throws e \<Rightarrow> (Inl EditorError, c\<lparr>idsDrawn := Suc (idsDrawn c), editor := e\<rparr>)))"
  by (simp add: createShape_def createShapeId_def split: normalized.splits attempt.splits)

lemma createShape_null:
  "createShape ar api c None = (Inl TypeError, c\<lparr>idsDrawn := Suc (idsDrawn c)\<rparr>)"
  by (simp add: createShape_def createShapeId_def)

lemma nullish_case: "nullish a b = (case a of None \<Rightarrow> b | Some v \<Rightarrow> v)"
  by (simp add: nullish_def)

lemma shapePartial_of_box:
  "d_kind d \<in> set box_kinds \<Longrightarrow> shapePartial_of ar sid d =
     Normal (geoShape sid (d_kind d)
        (js_minus ar (d_x d)
           (js_divide ar (nullish (d_width d) (js_number ar 100)) (js_number ar 2)))
        (js_minus ar (d_y d)
           (js_divide ar (nullish (d_height d) (js_number ar 100)) (js_number ar 2)))
        (nullish (d_width d) (js_number ar 100)) (nullish (d_height d) (js_number ar 100)))"
  by (auto simp: shapePartial_of_def box_kinds_def Let_def)

lemma shapePartial_of_circle:
  "d_kind d = ''circle'' \<Longrightarrow> shapePartial_of ar sid d =
     Normal (geoShape sid ''ellipse''
        (js_minus ar (d_x d)
           (js_divide ar (nullish (d_width d) (js_number ar 100)) (js_number ar 2)))
        (js_minus ar (d_y d)
           (js_divide ar (nullish (d_width d) (js_number ar 100)) (js_number ar 2)))
        (nullish (d_width d) (js_number ar 100)) (nullish (d_width d) (js_number ar 100)))"
  by (simp add: shapePartial_of_def Let_def)

lemma shapePartial_of_arrow:
  "d_kind params = ''arrow'' \<Longrightarrow> shapePartial_of ar sid params =
     Normal \<lparr>sp_id = sid, sp_type = ''arrow'', sp_x = d_x params, sp_y = d_y params,
          sp_props = ArrowProps \<lparr>vec_x = js_number ar 0, vec_y = js_number ar 0\<rparr>
             \<lparr>vec_x = nullish (d_endX params) (js_number ar 100),
               vec_y = nullish (d_endY params) (js_number ar 0)\<rparr>\<rparr>"
  by (simp add: shapePartial_of_def)

lemma shapePartial_of_line:
  "d_kind params = ''line'' \<Longrightarrow> shapePartial_of ar sid params =
     Normal \<lparr>sp_id = sid, sp_type = ''line'', sp_x = d_x params, sp_y = d_y params,
          sp_props = LineProps
             \<lparr>lp_id = ''a1'', lp_index = ''a1'', lp_x = js_number ar 0, lp_y = js_number ar 0\<rparr>
             \<lparr>lp_id = ''a2'', lp_index = ''a2'', lp_x = nullish (d_endX params) (js_number ar 100),
               lp_y = nullish (d_endY params) (js_number ar 0)\<rparr>\<rparr>"
  by (simp add: shapePartial_of_def)

lemma shapePartial_of_text:
  "d_kind params = ''text'' \<Longrightarrow> shapePartial_of ar sid params =
     Normal \<lparr>sp_id = sid, sp_type = ''text'', sp_x = d_x params, sp_y = d_y params,
          sp_props = RichTextProps (toRichText (nullish (d_text params) ''Text''))\<rparr>"
  by (simp add: shapePartial_of_def)

lemma shapePartial_of_note:
  "d_kind params = ''note'' \<Longrightarrow> shapePartial_of ar sid params =
     Normal \<lparr>sp_id = sid, sp_type = ''note'',
          sp_x = js_minus ar (d_x params)
             (js_divide ar (nullish (d_width params) (js_number ar 100)) (js_number ar 2)),
          sp_y = js_minus ar (d_y params)
             (js_divide ar (nullish (d_height params) (js_number ar 100)) (js_number ar 2)),
          sp_props = RichTextProps (toRichText (nullish (d_text params) ''Note''))\<rparr>"
  by (simp add: shapePartial_of_def Let_def)

lemma shapePartial_of_draw:
  "d_kind params = ''draw'' \<or> d_kind params = ''freehand'' \<Longrightarrow> shapePartial_of ar sid params =
     (case d_segments params of
          Some segs \<Rightarrow>
           (case drawSegments_of ar segs of
              None \<Rightarrow> Thrown TypeError
            | Some drawSegments \<Rightarrow>
                Normal \<lparr>sp_id = sid, sp_type = ''draw'', sp_x = d_x params, sp_y = d_y params,
                  sp_props = DrawProps drawSegments
                   (nullish (d_color params) ''black'') (nullish (d_size params) ''m'')
                   (nullish (d_fill params) ''none'') ''draw'' True
                   (nullish (d_isClosed params) False) False (js_number ar 1)\<rparr>)
        | None \<Rightarrow>
           (case d_points params of
              Some pts \<Rightarrow>
                Normal \<lparr>sp_id = sid, sp_type = ''draw'', sp_x = d_x params, sp_y = d_y params,
                  sp_props = DrawProps
                       [\<lparr>seg_type = Free, seg_points = map (with_z ar) pts\<rparr>]
                   (nullish (d_color params) ''black'') (nullish (d_size params) ''m'')
                   (nullish (d_fill params) ''none'') ''draw'' True
                   (nullish (d_isClosed params) False) False (js_number ar 1)\<rparr>
            | None \<Rightarrow> Refused ''Draw shape requires points or segments''))"
  by (erule disjE) (simp_all add: shapePartial_of_def Let_def)

lemma with_z_eq:
  "with_z ar = (\<lambda>p. \<lparr>pt_x = in_x p, pt_y = in_y p,
                    pt_z = (case in_z p of None \<Rightarrow> js_number ar 0.5 | Some z \<Rightarrow> z)\<rparr>)"
  by (simp add: fun_eq_iff with_z_def nullish_def split: option.splits)






lemmas ieee_eval = ieee_def ieee_number_def nearest_def floorlog2_def ilog2.simps pow2_def
  round_even_def signed_def Let_def

lemma ieee_literals:
  "js_number ieee 0 = Finite False 0"
  "js_number ieee 1 = Finite False 1"
  "js_number ieee 2 = Finite False 2"
  "js_number ieee 100 = Finite False 100"
  "js_number ieee 0.5 = Finite False 0.5"
  by (simp_all add: ieee_eval)

subsection \<open>Where the arithmetic is exact\<close>

text \<open>
  A positive half-integer below \<open>2^52\<close> is a double, so rounding leaves it alone.
\<close>

lemma ilog2_nonneg: "0 \<le> ilog2 n"
proof (induction n rule: ilog2.induct)
  case (1 n)
  show ?case
  proof (cases "n \<le> 1")
    case True
    then show ?thesis by (simp add: ilog2.simps)
  next
    case False
    with 1 have "0 \<le> ilog2 (n div 2)" by simp
    with False show ?thesis by (subst ilog2.simps) simp
  qed
qed

lemma ilog2_upper: "n < 2 ^ Suc p \<Longrightarrow> ilog2 n \<le> int p"
proof (induction p arbitrary: n)
  case 0
  then have "n \<le> 1" by simp
  then show ?case by (simp add: ilog2.simps)
next
  case (Suc p)
  show ?case
  proof (cases "n \<le> 1")
    case True
    then show ?thesis by (simp add: ilog2.simps)
  next
    case False
    from Suc.prems have "n div 2 < 2 ^ Suc p" by simp
    then have "ilog2 (n div 2) \<le> int p" by (rule Suc.IH)
    with False show ?thesis by (subst ilog2.simps) simp
  qed
qed

lemma round_even_of_int: "round_even (of_int z) = z"
  by (simp add: round_even_def)

lemma floorlog2_half_int:
  assumes "0 < k" "k < 2 ^ 53"
  shows "- 1 \<le> floorlog2 (of_int k / 2)" "floorlog2 (of_int k / 2) \<le> 51"
proof -
  let ?m = "of_int k / 2 :: real"
  show "- 1 \<le> floorlog2 ?m"
  proof (cases "1 \<le> ?m")
    case True
    then show ?thesis using ilog2_nonneg[of "\<lfloor>?m\<rfloor>"] by (simp add: floorlog2_def)
  next
    case False
    with assms(1) have "k = 1" by simp
    then show ?thesis by (simp add: floorlog2_def ilog2.simps)
  qed
  show "floorlog2 ?m \<le> 51"
  proof (cases "1 \<le> ?m")
    case True
    from assms(2) have "?m < 2 ^ 52" by simp
    then have "\<lfloor>?m\<rfloor> < 2 ^ Suc 51" by (simp add: floor_less_iff)
    then have "ilog2 \<lfloor>?m\<rfloor> \<le> int 51" by (rule ilog2_upper)
    with True show ?thesis by (simp add: floorlog2_def)
  next
    case False
    then show ?thesis using ilog2_nonneg[of "\<lceil>1 / ?m\<rceil> - 1"] by (simp add: floorlog2_def)
  qed
qed

lemma nearest_half_int:
  assumes "0 < k" "k < 2 ^ 53"
  shows "nearest s (of_int k / 2) = Finite s (of_int k / 2)"
proof -
  let ?m = "of_int k / 2 :: real"
  define L where "L = floorlog2 ?m"
  from floorlog2_half_int[OF assms] have L: "- 1 \<le> L" "L \<le> 51" by (simp_all add: L_def)
  define q where "q = nat (51 - L)"
  from L have e: "max (L - 52) (- 1074) = L - 52" by simp
  from L have "nat (52 - L) = Suc q" by (simp add: q_def)
  with L have p: "pow2 (L - 52) = 1 / 2 ^ Suc q" by (simp add: pow2_def)
  have quo: "?m / pow2 (L - 52) = of_int (k * 2 ^ q)" by (simp add: p)
  have v: "of_int (round_even (?m / pow2 (L - 52))) * pow2 (L - 52) = ?m"
    unfolding quo round_even_of_int by (simp add: p)
  from assms(2) have "?m < 2 ^ 52" by simp
  also have "(2 :: real) ^ 52 < 2 ^ 1024" by simp
  finally have small: "\<not> 2 ^ 1024 \<le> ?m" by simp
  from assms(1) have nz: "?m \<noteq> 0" by simp
  show ?thesis
    unfolding nearest_def Let_def L_def[symmetric] e v using nz small by simp
qed

text \<open>
  For integers \<open>i\<close> and \<open>j\<close> of magnitude below \<open>2^51\<close> the expression \<open>i - j / 2\<close> is
  evaluated without rounding: its value is the exact difference.
\<close>

lemma ieee_number_half_int:
  assumes "\<bar>k\<bar> < 2 ^ 53"
  shows "ieee_number (of_int k / 2) = Finite (k < 0) (of_int \<bar>k\<bar> / 2)"
proof (cases "k = 0")
  case True
  then show ?thesis by (simp add: ieee_number_def nearest_def)
next
  case False
  with assms have "0 < \<bar>k\<bar>" "\<bar>k\<bar> < 2 ^ 53" by simp_all
  then have "nearest (k < 0) (of_int \<bar>k\<bar> / 2) = Finite (k < 0) (of_int \<bar>k\<bar> / 2)"
    by (rule nearest_half_int)
  moreover have "\<bar>of_int k / 2 :: real\<bar> = of_int \<bar>k\<bar> / 2" by simp
  moreover have "(of_int k / 2 < (0 :: real)) = (k < 0)" by simp
  ultimately show ?thesis unfolding ieee_number_def by simp
qed

lemma ieee_number_int:
  assumes "\<bar>i\<bar> < 2 ^ 52"
  shows "ieee_number (of_int i) = Finite (i < 0) (of_int \<bar>i\<bar>)"
proof -
  from assms have "\<bar>2 * i\<bar> < 2 ^ 53" by simp
  then have "ieee_number (of_int (2 * i) / 2) = Finite (2 * i < 0) (of_int \<bar>2 * i\<bar> / 2)"
    by (rule ieee_number_half_int)
  then show ?thesis by (simp add: abs_mult)
qed

lemma ieee_anchor_exact:
  assumes i: "\<bar>i\<bar> < 2 ^ 51" and j: "\<bar>j\<bar> < 2 ^ 51"
  shows "js_minus ieee (js_number ieee (of_int i))
           (js_divide ieee (js_number ieee (of_int j)) (js_number ieee 2))
         = Finite (of_int i - of_int j / 2 < (0 :: real)) \<bar>of_int i - of_int j / 2\<bar>"
proof -
  let ?r = "of_int i - of_int j / 2 :: real"
  from i have ni: "ieee_number (of_int i) = Finite (i < 0) (of_int \<bar>i\<bar>)"
    by (intro ieee_number_int) simp
  from j have nj: "ieee_number (of_int j) = Finite (j < 0) (of_int \<bar>j\<bar>)"
    by (intro ieee_number_int) simp
  have n2: "ieee_number 2 = Finite False 2"
    using ieee_number_int[of 2] by simp
  have half: "ieee_divide (Finite (j < 0) (of_int \<bar>j\<bar>)) (Finite False 2)
                = Finite (j < 0) (of_int \<bar>j\<bar> / 2)"
  proof (cases "j = 0")
    case True
    then show ?thesis by (simp add: nearest_def)
  next
    case False
    with j have "0 < \<bar>j\<bar>" "\<bar>j\<bar> < 2 ^ 53" by simp_all
    then have "nearest (j < 0) (of_int \<bar>j\<bar> / 2) = Finite (j < 0) (of_int \<bar>j\<bar> / 2)"
      by (rule nearest_half_int)
    then show ?thesis by simp
  qed
  have val: "signed (i < 0) (of_int \<bar>i\<bar>) - signed (j < 0) (of_int \<bar>j\<bar> / 2) = ?r"
    by (simp add: signed_def)
  have diff: "ieee_minus (Finite (i < 0) (of_int \<bar>i\<bar>)) (Finite (j < 0) (of_int \<bar>j\<bar> / 2))
                = Finite (?r < 0) \<bar>?r\<bar>"
  proof (cases "?r = 0")
    case True
    then show ?thesis by (simp add: val Let_def del: of_int_abs)
  next
    case False
    have r: "?r = of_int (2 * i - j) / 2" by simp
    have ar: "\<bar>?r\<bar> = of_int \<bar>2 * i - j\<bar> / 2" unfolding r by simp
    from False have "2 * i - j \<noteq> 0" unfolding r by simp
    with i j have "0 < \<bar>2 * i - j\<bar>" "\<bar>2 * i - j\<bar> < 2 ^ 53" by simp_all
    then have "nearest (?r < 0) (of_int \<bar>2 * i - j\<bar> / 2)
                 = Finite (?r < 0) (of_int \<bar>2 * i - j\<bar> / 2)"
      by (rule nearest_half_int)
    then have "nearest (?r < 0) \<bar>?r\<bar> = Finite (?r < 0) \<bar>?r\<bar>"
      unfolding ar .
    with False show ?thesis by (simp add: val Let_def del: of_int_abs)
  qed
  have "js_minus ieee (js_number ieee (of_int i))
           (js_divide ieee (js_number ieee (of_int j)) (js_number ieee 2))
         = ieee_minus (ieee_number (of_int i))
             (ieee_divide (ieee_number (of_int j)) (ieee_number 2))"
    by (simp add: ieee_def)
  also have "\<dots> = ieee_minus (Finite (i < 0) (of_int \<bar>i\<bar>))
             (ieee_divide (Finite (j < 0) (of_int \<bar>j\<bar>)) (Finite False 2))"
    by (simp only: ni nj n2)
  also have "\<dots> = ieee_minus (Finite (i < 0) (of_int \<bar>i\<bar>))
                       (Finite (j < 0) (of_int \<bar>j\<bar> / 2))"
    by (simp only: half)
  also note diff
  finally show ?thesis .
qed

subsection \<open>The shapes created\<close>

text \<open>
  Claim C4, as amended. A box-like descriptor (rectangle, ellipse, triangle, star,
  diamond, hexagon, cloud) becomes a \<open>geo\<close> shape of its kind anchored at
  \<open>(x - width/2, y - height/2)\<close>, where \<open>-\<close> and \<open>/\<close> are the subtraction and the division
  of JavaScript numbers, with width and height 100 when unset. A circle becomes an
  ellipse whose width and height are both the width, anchored at
  \<open>(x - width/2, y - width/2)\<close> in the same arithmetic; the height supplied plays no part.
  The shape is handed to the editor, and the reply reports its creation when the editor
  returns.
\<close>

theorem box_like_anchor:
  "(let x = d_x params; y = d_y params;
        w = (case d_width params of None \<Rightarrow> js_number ar 100 | Some v \<Rightarrow> v);
        h = (case d_height params of None \<Rightarrow> js_number ar 100 | Some v \<Rightarrow> v);
        minus = js_minus ar;
        half = (\<lambda>v. js_divide ar v (js_number ar 2));
        sid = ShapeId (idsDrawn c);
        made = (\<lambda>sh. case api_createShape api sh (editor c) of
                  Returns e \<Rightarrow> (Inr (Created sid), c\<lparr>idsDrawn := Suc (idsDrawn c), editor := e\<rparr>)
                | Throws e \<Rightarrow> (Inl EditorError, c\<lparr>idsDrawn := Suc (idsDrawn c), editor := e\<rparr>))
    in (d_kind params \<in> set box_kinds \<longrightarrow>
          createShape ar api c (Some params) =
            made \<lparr>sp_id = sid, sp_type = ''geo'', sp_x = minus x (half w), sp_y = minus y (half h),
                  sp_props = GeoProps (d_kind params) w h\<rparr>)
     \<and> (d_kind params = ''circle'' \<longrightarrow>
          createShape ar api c (Some params) =
            made \<lparr>sp_id = sid, sp_type = ''geo'', sp_x = minus x (half w), sp_y = minus y (half w),
                  sp_props = GeoProps ''ellipse'' w w\<rparr>))"
  by (simp add: createShape_eval shapePartial_of_box shapePartial_of_circle geoShape_def
        nullish_case Let_def)

theorem box_like_anchor_witness:
  "''rectangle'' \<in> set box_kinds \<and>
   createShape ieee page_api empty_canvas
      (Some ((bare ''rectangle'' (Finite False 600) (Finite False 400))
               \<lparr>d_width := Some (Finite False 200), d_height := Some (Finite False 100)\<rparr>)) =
     (Inr (Created (ShapeId 0)),
      \<lparr>editor = \<lparr>pageShapes = [\<lparr>sp_id = ShapeId 0, sp_type = ''geo'', sp_x = Finite False 500,
                                sp_y = Finite False 350,
                                sp_props = GeoProps ''rectangle'' (Finite False 200)
                                             (Finite False 100)\<rparr>],
                 selectedIds = []\<rparr>, idsDrawn = 1\<rparr>) \<and>
   createShape ieee page_api empty_canvas
      (Some ((bare ''circle'' (Finite False 600) (Finite False 400))
               \<lparr>d_width := Some (Finite False 80), d_height := Some (Finite False 30)\<rparr>)) =
     (Inr (Created (ShapeId 0)),
      \<lparr>editor = \<lparr>pageShapes = [\<lparr>sp_id = ShapeId 0, sp_type = ''geo'', sp_x = Finite False 560,
                                sp_y = Finite False 360,
                                sp_props = GeoProps ''ellipse'' (Finite False 80)
                                             (Finite False 80)\<rparr>],
                 selectedIds = []\<rparr>, idsDrawn = 1\<rparr>)"
  using box_like_anchor[where ar = ieee and api = page_api and c = empty_canvas
          and params = "(bare ''rectangle'' (Finite False 600) (Finite False 400))
               \<lparr>d_width := Some (Finite False 200), d_height := Some (Finite False 100)\<rparr>"]
        box_like_anchor[where ar = ieee and api = page_api and c = empty_canvas
          and params = "(bare ''circle'' (Finite False 600) (Finite False 400))
               \<lparr>d_width := Some (Finite False 80), d_height := Some (Finite False 30)\<rparr>"]
  by (simp add: Let_def bare_def box_kinds_def page_api_def empty_canvas_def ieee_eval)

text \<open>
  The claim as it stands, with an exact difference, fails in double arithmetic: for a
  rectangle at \<open>x = 2^53\<close> of width 1 the anchor's \<open>x\<close> is \<open>2^53\<close> again, since
  \<open>2^53 - 1/2\<close> is not a double and the tie goes to the even neighbour.
\<close>

theorem box_like_anchor_counterexample:
  "createShape ieee page_api empty_canvas
      (Some ((bare ''rectangle'' (Finite False 9007199254740992) (Finite False 0))
               \<lparr>d_width := Some (Finite False 1)\<rparr>)) =
     (Inr (Created (ShapeId 0)),
      \<lparr>editor = \<lparr>pageShapes = [\<lparr>sp_id = ShapeId 0, sp_type = ''geo'',
                                sp_x = Finite False 9007199254740992,
                                sp_y = Finite True 50,
                                sp_props = GeoProps ''rectangle'' (Finite False 1)
                                             (Finite False 100)\<rparr>],
                 selectedIds = []\<rparr>, idsDrawn = 1\<rparr>)
   \<and> Finite False 9007199254740992 \<noteq> Finite False (9007199254740992 - 1 / 2)"
  by (simp add: createShape_eval shapePartial_of_box geoShape_def nullish_case bare_def
        box_kinds_def page_api_def empty_canvas_def ieee_eval)

text \<open>
  Claim C6. A draw or freehand descriptor with points and no segments becomes one
  \<open>free\<close> segment holding those points, each with pressure 0.5 where it has none. With
  neither points nor segments the result is the error object, and nothing is created.
\<close>

theorem draw_points:
  "d_kind params = ''draw'' \<or> d_kind params = ''freehand'' \<Longrightarrow> d_segments params = None \<Longrightarrow>
   (\<forall>pts. d_points params = Some pts \<longrightarrow>
      createShape ar api c (Some params) =
        (case api_createShape api
             \<lparr>sp_id = ShapeId (idsDrawn c), sp_type = ''draw'', sp_x = d_x params,
              sp_y = d_y params,
              sp_props = DrawProps
                [\<lparr>seg_type = Free,
                  seg_points = map (\<lambda>p. \<lparr>pt_x = in_x p, pt_y = in_y p,
                      pt_z = (case in_z p of None \<Rightarrow> js_number ar 0.5 | Some z \<Rightarrow> z)\<rparr>) pts\<rparr>]
                (case d_color params of None \<Rightarrow> ''black'' | Some v \<Rightarrow> v)
                (case d_size params of None \<Rightarrow> ''m'' | Some v \<Rightarrow> v)
                (case d_fill params of None \<Rightarrow> ''none'' | Some v \<Rightarrow> v)
                ''draw'' True
                (case d_isClosed params of None \<Rightarrow> False | Some v \<Rightarrow> v)
                False (js_number ar 1)\<rparr>
             (editor c) of
           Returns e \<Rightarrow> (Inr (Created (ShapeId (idsDrawn c))),
                          c\<lparr>idsDrawn := Suc (idsDrawn c), editor := e\<rparr>)
         | Throws e \<Rightarrow> (Inl EditorError, c\<lparr>idsDrawn := Suc (idsDrawn c), editor := e\<rparr>)))
   \<and> (d_points params = None \<longrightarrow>
        createShape ar api c (Some params) =
          (Inr (Error ''Draw shape requires points or segments''),
           c\<lparr>idsDrawn := Suc (idsDrawn c)\<rparr>))"
  by (simp add: createShape_eval shapePartial_of_draw with_z_eq nullish_case)

theorem draw_points_witness:
  "createShape ieee page_api empty_canvas
      (Some ((bare ''draw'' (Finite False 5) (Finite False 6))
        \<lparr>d_points := Some [\<lparr>in_x = Finite False 0, in_y = Finite False 0, in_z = None\<rparr>,
                           \<lparr>in_x = Finite False 10, in_y = Finite False 0,
                             in_z = Some (Finite False 1)\<rparr>,
                           \<lparr>in_x = Finite False 10, in_y = Finite False 10, in_z = None\<rparr>,
                           \<lparr>in_x = Finite False 0, in_y = Finite False 10, in_z = None\<rparr>],
          d_isClosed := Some True\<rparr>)) =
     (Inr (Created (ShapeId 0)),
      \<lparr>editor = \<lparr>pageShapes = [\<lparr>sp_id = ShapeId 0, sp_type = ''draw'', sp_x = Finite False 5,
          sp_y = Finite False 6,
          sp_props = DrawProps
            [\<lparr>seg_type = Free,
              seg_points = [\<lparr>pt_x = Finite False 0, pt_y = Finite False 0, pt_z = Finite False 0.5\<rparr>,
                            \<lparr>pt_x = Finite False 10, pt_y = Finite False 0, pt_z = Finite False 1\<rparr>,
                            \<lparr>pt_x = Finite False 10, pt_y = Finite False 10,
                              pt_z = Finite False 0.5\<rparr>,
                            \<lparr>pt_x = Finite False 0, pt_y = Finite False 10,
                              pt_z = Finite False 0.5\<rparr>]\<rparr>]
            ''black'' ''m'' ''none'' ''draw'' True True False (Finite False 1)\<rparr>],
                 selectedIds = []\<rparr>, idsDrawn = 1\<rparr>) \<and>
   createShape ieee page_api empty_canvas
      (Some (bare ''freehand'' (Finite False 5) (Finite False 6))) =
     (Inr (Error ''Draw shape requires points or segments''),
      \<lparr>editor = \<lparr>pageShapes = [], selectedIds = []\<rparr>, idsDrawn = 1\<rparr>)"
  using draw_points[where ar = ieee and api = page_api and c = empty_canvas
          and params = "(bare ''draw'' (Finite False 5) (Finite False 6))
        \<lparr>d_points := Some [\<lparr>in_x = Finite False 0, in_y = Finite False 0, in_z = None\<rparr>,
                           \<lparr>in_x = Finite False 10, in_y = Finite False 0,
                             in_z = Some (Finite False 1)\<rparr>,
                           \<lparr>in_x = Finite False 10, in_y = Finite False 10, in_z = None\<rparr>,
                           \<lparr>in_x = Finite False 0, in_y = Finite False 10, in_z = None\<rparr>],
          d_isClosed := Some True\<rparr>"]
        draw_points[where ar = ieee and api = page_api and c = empty_canvas
          and params = "bare ''freehand'' (Finite False 5) (Finite False 6)"]
  by (simp add: bare_def page_api_def empty_canvas_def ieee_eval)

text \<open>
  Claim C7. An arrow or a line is anchored at \<open>(x, y)\<close>; it starts at the offset
  \<open>(0, 0)\<close> and ends at the offset \<open>(endX, endY)\<close>, which is \<open>(100, 0)\<close> when unset.
\<close>

theorem arrow_line:
  "(let x = d_x params; y = d_y params;
        ex = (case d_endX params of None \<Rightarrow> js_number ar 100 | Some v \<Rightarrow> v);
        ey = (case d_endY params of None \<Rightarrow> js_number ar 0 | Some v \<Rightarrow> v);
        zero = js_number ar 0;
        sid = ShapeId (idsDrawn c);
        made = (\<lambda>sh. case api_createShape api sh (editor c) of
                  Returns e \<Rightarrow> (Inr (Created sid), c\<lparr>idsDrawn := Suc (idsDrawn c), editor := e\<rparr>)
                | Throws e \<Rightarrow> (Inl EditorError, c\<lparr>idsDrawn := Suc (idsDrawn c), editor := e\<rparr>))
    in (d_kind params = ''arrow'' \<longrightarrow>
          createShape ar api c (Some params) =
            made \<lparr>sp_id = sid, sp_type = ''arrow'', sp_x = x, sp_y = y,
                  sp_props = ArrowProps \<lparr>vec_x = zero, vec_y = zero\<rparr> \<lparr>vec_x = ex, vec_y = ey\<rparr>\<rparr>)
     \<and> (d_kind params = ''line'' \<longrightarrow>
          createShape ar api c (Some params) =
            made \<lparr>sp_id = sid, sp_type = ''line'', sp_x = x, sp_y = y,
                  sp_props = LineProps
                    \<lparr>lp_id = ''a1'', lp_index = ''a1'', lp_x = zero, lp_y = zero\<rparr>
                    \<lparr>lp_id = ''a2'', lp_index = ''a2'', lp_x = ex, lp_y = ey\<rparr>\<rparr>))"
  by (simp add: createShape_eval shapePartial_of_arrow shapePartial_of_line nullish_case Let_def)

theorem arrow_line_witness:
  "createShape ieee page_api empty_canvas
      (Some (bare ''arrow'' (Finite False 400) (Finite False 400))) =
     (Inr (Created (ShapeId 0)),
      \<lparr>editor = \<lparr>pageShapes = [\<lparr>sp_id = ShapeId 0, sp_type = ''arrow'', sp_x = Finite False 400,
          sp_y = Finite False 400,
          sp_props = ArrowProps \<lparr>vec_x = Finite False 0, vec_y = Finite False 0\<rparr>
                       \<lparr>vec_x = Finite False 100, vec_y = Finite False 0\<rparr>\<rparr>],
                 selectedIds = []\<rparr>, idsDrawn = 1\<rparr>) \<and>
   createShape ieee page_api empty_canvas
      (Some ((bare ''line'' (Finite False 1) (Finite False 2))
               \<lparr>d_endX := Some (Finite False 30), d_endY := Some (Finite True 40)\<rparr>)) =
     (Inr (Created (ShapeId 0)),
      \<lparr>editor = \<lparr>pageShapes = [\<lparr>sp_id = ShapeId 0, sp_type = ''line'', sp_x = Finite False 1,
          sp_y = Finite False 2,
          sp_props = LineProps
             \<lparr>lp_id = ''a1'', lp_index = ''a1'', lp_x = Finite False 0, lp_y = Finite False 0\<rparr>
             \<lparr>lp_id = ''a2'', lp_index = ''a2'', lp_x = Finite False 30,
               lp_y = Finite True 40\<rparr>\<rparr>],
                 selectedIds = []\<rparr>, idsDrawn = 1\<rparr>)"
  using arrow_line[where ar = ieee and api = page_api and c = empty_canvas
          and params = "bare ''arrow'' (Finite False 400) (Finite False 400)"]
        arrow_line[where ar = ieee and api = page_api and c = empty_canvas
          and params = "(bare ''line'' (Finite False 1) (Finite False 2))
               \<lparr>d_endX := Some (Finite False 30), d_endY := Some (Finite True 40)\<rparr>"]
  by (simp add: Let_def bare_def page_api_def empty_canvas_def ieee_eval)

text \<open>
  Claim C8, as amended. A text shape is anchored at \<open>(x, y)\<close> and shows \<open>Text\<close> when no
  text is given; a note is anchored at \<open>(x - width/2, y - height/2)\<close>, where \<open>-\<close> and \<open>/\<close> are
  the subtraction and the division of JavaScript numbers and width and height are 100
  when unset, and shows \<open>Note\<close> when no text is given.
\<close>

theorem text_note:
  "(let x = d_x params; y = d_y params;
        w = (case d_width params of None \<Rightarrow> js_number ar 100 | Some v \<Rightarrow> v);
        h = (case d_height params of None \<Rightarrow> js_number ar 100 | Some v \<Rightarrow> v);
        minus = js_minus ar;
        half = (\<lambda>v. js_divide ar v (js_number ar 2));
        sid = ShapeId (idsDrawn c);
        made = (\<lambda>sh. case api_createShape api sh (editor c) of
                  Returns e \<Rightarrow> (Inr (Created sid), c\<lparr>idsDrawn := Suc (idsDrawn c), editor := e\<rparr>)
                | Throws e \<Rightarrow> (Inl EditorError, c\<lparr>idsDrawn := Suc (idsDrawn c), editor := e\<rparr>))
    in (d_kind params = ''text'' \<longrightarrow>
          createShape ar api c (Some params) =
            made \<lparr>sp_id = sid, sp_type = ''text'', sp_x = x, sp_y = y,
                  sp_props = RichTextProps (toRichText
                     (case d_text params of None \<Rightarrow> ''Text'' | Some t \<Rightarrow> t))\<rparr>)
     \<and> (d_kind params = ''note'' \<longrightarrow>
          createShape ar api c (Some params) =
            made \<lparr>sp_id = sid, sp_type = ''note'', sp_x = minus x (half w),
                  sp_y = minus y (half h),
                  sp_props = RichTextProps (toRichText
                     (case d_text params of None \<Rightarrow> ''Note'' | Some t \<Rightarrow> t))\<rparr>))"
  by (simp add: createShape_eval shapePartial_of_text shapePartial_of_note nullish_case Let_def)

theorem text_note_witness:
  "createShape ieee page_api empty_canvas
      (Some (bare ''text'' (Finite False 300) (Finite False 200))) =
     (Inr (Created (ShapeId 0)),
      \<lparr>editor = \<lparr>pageShapes = [\<lparr>sp_id = ShapeId 0, sp_type = ''text'', sp_x = Finite False 300,
          sp_y = Finite False 200,
          sp_props = RichTextProps (toRichText ''Text'')\<rparr>],
                 selectedIds = []\<rparr>, idsDrawn = 1\<rparr>) \<and>
   createShape ieee page_api empty_canvas
      (Some ((bare ''note'' (Finite False 300) (Finite False 200))
               \<lparr>d_width := Some (Finite False 60)\<rparr>)) =
     (Inr (Created (ShapeId 0)),
      \<lparr>editor = \<lparr>pageShapes = [\<lparr>sp_id = ShapeId 0, sp_type = ''note'', sp_x = Finite False 270,
          sp_y = Finite False 150,
          sp_props = RichTextProps (toRichText ''Note'')\<rparr>],
                 selectedIds = []\<rparr>, idsDrawn = 1\<rparr>)"
  using text_note[where ar = ieee and api = page_api and c = empty_canvas
          and params = "bare ''text'' (Finite False 300) (Finite False 200)"]
        text_note[where ar = ieee and api = page_api and c = empty_canvas
          and params = "(bare ''note'' (Finite False 300) (Finite False 200))
               \<lparr>d_width := Some (Finite False 60)\<rparr>"]
  by (simp add: Let_def bare_def page_api_def empty_canvas_def ieee_eval)

text \<open>
  The claim as it stands, with an exact difference, fails for a note in double
  arithmetic: at \<open>x = 2^53\<close> with width 1 the anchor's \<open>x\<close> is \<open>2^53\<close>, not \<open>2^53 - 1/2\<close>.
\<close>

theorem text_note_counterexample:
  "createShape ieee page_api empty_canvas
      (Some ((bare ''note'' (Finite False 9007199254740992) (Finite False 10))
               \<lparr>d_width := Some (Finite False 1)\<rparr>)) =
     (Inr (Created (ShapeId 0)),
      \<lparr>editor = \<lparr>pageShapes = [\<lparr>sp_id = ShapeId 0, sp_type = ''note'',
                                sp_x = Finite False 9007199254740992,
                                sp_y = Finite True 40,
                                sp_props = RichTextProps (toRichText ''Note'')\<rparr>],
                 selectedIds = []\<rparr>, idsDrawn = 1\<rparr>)
   \<and> Finite False 9007199254740992 \<noteq> Finite False (9007199254740992 - 1 / 2)"
  by (simp add: createShape_eval shapePartial_of_note nullish_case bare_def
        page_api_def empty_canvas_def ieee_eval)

subsection \<open>Commands\<close>

lemma handleCommand_clear:
  "cmd_command command = ''clear'' \<Longrightarrow> handleCommand ar api c command = 
       (let shapes = api_getCurrentPageShapes api (editor c);
            c1 = (if length shapes > 0
                  then c\<lparr>editor := api_deleteShapes api (map sp_id shapes) (editor c)\<rparr>
                  else c)
        in (Inr (Deleted (length shapes)), c1))"
  unfolding handleCommand_def by simp

lemma handleCommand_delete_selected:
  "cmd_command command = ''delete_selected'' \<Longrightarrow> handleCommand ar api c command = 
       (let selected = api_getSelectedShapes api (editor c);
            c1 = (if length selected > 0
                  then c\<lparr>editor := api_deleteShapes api (map sp_id selected) (editor c)\<rparr>
                  else c)
        in (Inr (Deleted (length selected)), c1))"
  unfolding handleCommand_def by simp


lemma handleCommand_unknown:
  "cmd_command command \<notin> {''create_shape'', ''create_shapes'', ''clear'', ''get_shapes'',
      ''undo'', ''redo'', ''zoom_to_fit'', ''delete_selected''} \<Longrightarrow>
   handleCommand ar api c command = (Inr (Error (''Unknown command: '' @ cmd_command command)), c)"
  unfolding handleCommand_def by simp



text \<open>
  Claim C9. \<open>clear\<close> on a page without shapes, and \<open>delete_selected\<close> with nothing
  selected, return success with a deleted count of 0 and leave the canvas as it was, so
  repeating them changes nothing.
\<close>

theorem clear_empty:
  "(api_getCurrentPageShapes api (editor c) = [] \<longrightarrow>
      handleCommand ar api c \<lparr>cmd_id = n, cmd_command = ''clear'', cmd_params = ps\<rparr>
        = (Inr (Deleted 0), c))
   \<and> (api_getSelectedShapes api (editor c) = [] \<longrightarrow>
      handleCommand ar api c \<lparr>cmd_id = n, cmd_command = ''delete_selected'', cmd_params = ps\<rparr>
        = (Inr (Deleted 0), c))"
  by (simp add: handleCommand_clear handleCommand_delete_selected)

theorem clear_empty_witness:
  "api_getCurrentPageShapes page_api (editor (empty_canvas :: number page canvas)) = [] \<and>
   api_getSelectedShapes page_api (editor (empty_canvas :: number page canvas)) = [] \<and>
   handleCommand ieee page_api empty_canvas
       \<lparr>cmd_id = 1, cmd_command = ''clear'', cmd_params = NoParams\<rparr> = (Inr (Deleted 0), empty_canvas) \<and>
   handleCommand ieee page_api empty_canvas
       \<lparr>cmd_id = 2, cmd_command = ''delete_selected'', cmd_params = NoParams\<rparr> = (Inr (Deleted 0), empty_canvas)"
  using clear_empty[where ar = ieee and api = page_api and c = empty_canvas and n = 1 and ps = NoParams]
        clear_empty[where ar = ieee and api = page_api and c = empty_canvas and n = 2 and ps = NoParams]
  by (simp add: page_api_def empty_canvas_def)




section \<open>Properties of the bridge server\<close>

subsection \<open>The invariant\<close>

lemma good_init: "good [] init"
  by (simp add: good_def init_def settled_def)

lemma goodI:
  assumes "\<forall>i p. pendingRequests s i = Some p \<longrightarrow>
         0 < i \<and> i \<le> requestId s \<and> p < promises s \<and> p \<notin> settled s"
    and "\<forall>i j p. pendingRequests s i = Some p \<and> pendingRequests s j = Some p \<longrightarrow> i = j"
    and "\<forall>tm \<in> set ts. fst (snd tm) \<le> requestId s \<and>
         (pendingRequests s (fst (snd tm)) = Some (snd (snd tm))
          \<or> pendingRequests s (fst (snd tm)) = None \<and> snd (snd tm) \<in> settled s)"
    and "\<forall>p \<in> settled s. p < promises s"
    and "distinct (map fst (settlements s))"
    and "\<forall>p < promises s. (\<exists>i. pendingRequests s i = Some p) \<or> p \<in> settled s"
    and "\<forall>i p. pendingRequests s i = Some p \<longrightarrow>
         (\<exists>t. (t, i, p) \<in> set ts \<and> t \<le> clock s + TIMEOUT_MS)"
    and "0 \<le> requestId s"
  shows "good ts s"
  unfolding good_def by (intro conjI assms)

lemma good_pending:
  "good ts s \<Longrightarrow> pendingRequests s i = Some p \<Longrightarrow>
     0 < i \<and> i \<le> requestId s \<and> p < promises s \<and> p \<notin> settled s"
  unfolding good_def by (elim conjE) (erule allE[of _ i], erule allE[of _ p], simp)

lemma good_inj:
  "good ts s \<Longrightarrow> pendingRequests s i = Some p \<Longrightarrow> pendingRequests s j = Some p \<Longrightarrow> i = j"
  unfolding good_def by (elim conjE) blast

lemma good_timer:
  "good ts s \<Longrightarrow> tm \<in> set ts \<Longrightarrow> fst (snd tm) \<le> requestId s \<and>
         (pendingRequests s (fst (snd tm)) = Some (snd (snd tm))
          \<or> pendingRequests s (fst (snd tm)) = None \<and> snd (snd tm) \<in> settled s)"
  unfolding good_def by (elim conjE) (erule ballE[of _ _ tm], simp_all)

lemma good_settled: "good ts s \<Longrightarrow> p \<in> settled s \<Longrightarrow> p < promises s"
  unfolding good_def by (elim conjE) (erule ballE[of _ _ p], simp_all)

lemma good_distinct: "good ts s \<Longrightarrow> distinct (map fst (settlements s))"
  unfolding good_def by (elim conjE)

lemma good_total:
  "good ts s \<Longrightarrow> p < promises s \<Longrightarrow> (\<exists>i. pendingRequests s i = Some p) \<or> p \<in> settled s"
  unfolding good_def by (elim conjE) (erule allE[of _ p], simp)

lemma good_deadline:
  "good ts s \<Longrightarrow> pendingRequests s i = Some p \<Longrightarrow>
     \<exists>t. (t, i, p) \<in> set ts \<and> t \<le> clock s + TIMEOUT_MS"
  unfolding good_def by (elim conjE) (erule allE[of _ i], erule allE[of _ p], simp)

lemma good_counter: "good ts s \<Longrightarrow> 0 \<le> requestId s"
  unfolding good_def by (elim conjE)

lemma good_set: "set ts = set ts' \<Longrightarrow> good ts s = good ts' s"
  unfolding good_def by simp

lemma good_drop:
  assumes g: "good (tm # ts) s" and none: "pendingRequests s (fst (snd tm)) = None"
  shows "good ts s"
proof (rule goodI)
  show "\<forall>i p. pendingRequests s i = Some p \<longrightarrow>
         (\<exists>t. (t, i, p) \<in> set ts \<and> t \<le> clock s + TIMEOUT_MS)"
  proof (intro allI impI)
    fix i p assume pen: "pendingRequests s i = Some p"
    from good_deadline[OF g pen] obtain t
      where t: "(t, i, p) \<in> set (tm # ts)" "t \<le> clock s + TIMEOUT_MS" by blast
    from pen none have "(t, i, p) \<noteq> tm" by auto
    with t show "\<exists>t. (t, i, p) \<in> set ts \<and> t \<le> clock s + TIMEOUT_MS" by auto
  qed
  show "\<forall>tm \<in> set ts. fst (snd tm) \<le> requestId s \<and>
         (pendingRequests s (fst (snd tm)) = Some (snd (snd tm))
          \<or> pendingRequests s (fst (snd tm)) = None \<and> snd (snd tm) \<in> settled s)"
    using good_timer[OF g] by simp
qed (use g in \<open>auto dest: good_pending good_inj good_settled good_distinct good_total good_counter\<close>)

lemma settled_settle [simp]: "settled (settle i p x s) = insert p (settled s)"
  by (simp add: settled_def settle_def)

lemma settle_fields [simp]:
  "pendingRequests (settle i p x s) = (pendingRequests s)(i := None)"
  "requestId (settle i p x s) = requestId s"
  "promises (settle i p x s) = promises s"
  "settlements (settle i p x s) = settlements s @ [(p, x)]"
  "timers (settle i p x s) = timers s"
  "clock (settle i p x s) = clock s"
  "canvasClient (settle i p x s) = canvasClient s"
  "clients (settle i p x s) = clients s"
  "outbox (settle i p x s) = outbox s"
  by (simp_all add: settle_def)

lemma good_settle:
  assumes g: "good ts s" and pen: "pendingRequests s i = Some p"
  shows "good ts (settle i p x s)"
proof (rule goodI)
  let ?s = "settle i p x s"
  have inj: "\<And>j. pendingRequests s j = Some p \<Longrightarrow> j = i"
    using good_inj[OF g _ pen] by blast
  from good_pending[OF g pen] have fresh: "p \<notin> settled s" and lt: "p < promises s" by simp_all
  show "\<forall>j q. pendingRequests ?s j = Some q \<longrightarrow>
         0 < j \<and> j \<le> requestId ?s \<and> q < promises ?s \<and> q \<notin> settled ?s"
  proof (intro allI impI)
    fix j q assume "pendingRequests ?s j = Some q"
    then have ji: "j \<noteq> i" and q: "pendingRequests s j = Some q" by (auto split: if_splits)
    with inj have "q \<noteq> p" by blast
    with good_pending[OF g q]
    show "0 < j \<and> j \<le> requestId ?s \<and> q < promises ?s \<and> q \<notin> settled ?s" by simp
  qed
  show "\<forall>j k q. pendingRequests ?s j = Some q \<and> pendingRequests ?s k = Some q \<longrightarrow> j = k"
    using good_inj[OF g] by (auto split: if_splits)
  show "\<forall>tm \<in> set ts. fst (snd tm) \<le> requestId ?s \<and>
         (pendingRequests ?s (fst (snd tm)) = Some (snd (snd tm))
          \<or> pendingRequests ?s (fst (snd tm)) = None \<and> snd (snd tm) \<in> settled ?s)"
  proof
    fix tm assume tm: "tm \<in> set ts"
    from good_timer[OF g tm] have le: "fst (snd tm) \<le> requestId s"
      and d: "pendingRequests s (fst (snd tm)) = Some (snd (snd tm))
          \<or> pendingRequests s (fst (snd tm)) = None \<and> snd (snd tm) \<in> settled s"
      by simp_all
    show "fst (snd tm) \<le> requestId ?s \<and>
         (pendingRequests ?s (fst (snd tm)) = Some (snd (snd tm))
          \<or> pendingRequests ?s (fst (snd tm)) = None \<and> snd (snd tm) \<in> settled ?s)"
      using le d pen by (cases "fst (snd tm) = i") auto
  qed
  show "\<forall>q \<in> settled ?s. q < promises ?s"
    using good_settled[OF g] lt by simp
  show "distinct (map fst (settlements ?s))"
    using good_distinct[OF g] fresh by (simp add: settled_def)
  show "\<forall>q < promises ?s. (\<exists>j. pendingRequests ?s j = Some q) \<or> q \<in> settled ?s"
  proof (intro allI impI)
    fix q assume "q < promises ?s"
    then have "(\<exists>j. pendingRequests s j = Some q) \<or> q \<in> settled s"
      using good_total[OF g, of q] by simp
    then show "(\<exists>j. pendingRequests ?s j = Some q) \<or> q \<in> settled ?s"
    proof
      assume "\<exists>j. pendingRequests s j = Some q"
      then obtain j where j: "pendingRequests s j = Some q" ..
      show ?thesis
      proof (cases "q = p")
        case True then show ?thesis by simp
      next
        case False
        with j pen have "j \<noteq> i" by auto
        with j have "pendingRequests ?s j = Some q" by simp
        then show ?thesis by blast
      qed
    next
      assume "q \<in> settled s"
      then show ?thesis by simp
    qed
  qed
  show "\<forall>j q. pendingRequests ?s j = Some q \<longrightarrow>
         (\<exists>t. (t, j, q) \<in> set ts \<and> t \<le> clock ?s + TIMEOUT_MS)"
    using good_deadline[OF g] by (auto split: if_splits)
  show "0 \<le> requestId ?s" using good_counter[OF g] by simp
qed

lemma on_message_cases:
  "on_message d s = s \<or>
   (\<exists>i p res. d = Reply (Some i) res \<and> i \<noteq> 0 \<and> pendingRequests s i = Some p \<and>
        on_message d s = settle i p (Resolved res) s)"
  by (auto simp: on_message_def settle_def split: ws_data.splits option.splits)

lemma on_timeout_cases:
  "on_timeout i p s = (if pendingRequests s i = None then s else settle i p (Rejected TimedOut) s)"
  by (simp add: on_timeout_def settle_def)

lemma good_on_message: "good ts s \<Longrightarrow> good ts (on_message d s)"
  using on_message_cases[of d s] by (auto simp: good_settle)

lemma good_on_timeout:
  assumes g: "good ((t, i, p) # ts) s"
  shows "good ts (on_timeout i p s)"
proof (cases "pendingRequests s i = None")
  case True
  with g have "good ts s" by (auto intro: good_drop)
  with True show ?thesis by (simp add: on_timeout_cases)
next
  case False
  with good_timer[OF g, of "(t, i, p)"] have "pendingRequests s i = Some p" by auto
  with g have "good ((t, i, p) # ts) (settle i p (Rejected TimedOut) s)"
    by (simp add: good_settle)
  then have "good ts (settle i p (Rejected TimedOut) s)"
    by (rule good_drop) simp
  with False show ?thesis by (auto simp: on_timeout_cases)
qed

lemma good_fire: "good (due @ ts) s \<Longrightarrow> good ts (fire due s)"
proof (induction due arbitrary: s)
  case Nil
  then show ?case by simp
next
  case (Cons tm due)
  obtain t i p where tm: "tm = (t, i, p)" by (cases tm)
  from Cons.prems have "good (due @ ts) (on_timeout i p s)"
    unfolding tm by (simp add: good_on_timeout)
  then show ?case unfolding tm by (simp add: Cons.IH)
qed

lemma sendToCanvas_unavailable:
  "canvasClient s = None \<Longrightarrow> sendToCanvas command params s =
     (promises s, s\<lparr>promises := Suc (promises s),
                    settlements := settlements s @ [(promises s, Rejected NotConnected)]\<rparr>)"
  by (simp add: sendToCanvas_def Let_def)

lemma sendToCanvas_connected:
  "canvasClient s = Some ws \<Longrightarrow> sendToCanvas command params s =
     (promises s,
      s\<lparr>promises := Suc (promises s),
        requestId := incr (requestId s),
        pendingRequests := (pendingRequests s)(incr (requestId s) \<mapsto> promises s),
        outbox := outbox s @ [(ws, \<lparr>env_id = incr (requestId s), env_command = command,
                                       env_params = params\<rparr>)],
        timers := timers s @ [(clock s + TIMEOUT_MS, incr (requestId s), promises s)]\<rparr>)"
  by (simp add: sendToCanvas_def Let_def)

lemma good_call_unavailable:
  assumes g: "good ts s"
  shows "good ts (s\<lparr>promises := Suc (promises s),
                    settlements := settlements s @ [(promises s, Rejected NotConnected)]\<rparr>)"
    (is "good ts ?s")
proof (rule goodI)
  have st: "settled ?s = insert (promises s) (settled s)" by (simp add: settled_def)
  have fresh: "promises s \<notin> settled s" using good_settled[OF g, of "promises s"] by auto
  show "\<forall>i p. pendingRequests ?s i = Some p \<longrightarrow>
         0 < i \<and> i \<le> requestId ?s \<and> p < promises ?s \<and> p \<notin> settled ?s"
    using good_pending[OF g] by (fastforce simp: st)
  show "\<forall>i j p. pendingRequests ?s i = Some p \<and> pendingRequests ?s j = Some p \<longrightarrow> i = j"
    using good_inj[OF g] by auto
  show "\<forall>tm \<in> set ts. fst (snd tm) \<le> requestId ?s \<and>
         (pendingRequests ?s (fst (snd tm)) = Some (snd (snd tm))
          \<or> pendingRequests ?s (fst (snd tm)) = None \<and> snd (snd tm) \<in> settled ?s)"
    using good_timer[OF g] by (auto simp: st)
  show "\<forall>p \<in> settled ?s. p < promises ?s"
    using good_settled[OF g] by (auto simp: st less_Suc_eq)
  show "distinct (map fst (settlements ?s))"
    using good_distinct[OF g] fresh by (simp add: settled_def)
  show "\<forall>p < promises ?s. (\<exists>i. pendingRequests ?s i = Some p) \<or> p \<in> settled ?s"
    using good_total[OF g] by (auto simp: st less_Suc_eq)
  show "\<forall>i p. pendingRequests ?s i = Some p \<longrightarrow>
         (\<exists>t. (t, i, p) \<in> set ts \<and> t \<le> clock ?s + TIMEOUT_MS)"
    using good_deadline[OF g] by simp
  show "0 \<le> requestId ?s" using good_counter[OF g] by simp
qed

lemma good_call_connected:
  assumes g: "good ts s"
  shows "good (ts @ [(clock s + TIMEOUT_MS, requestId s + 1, promises s)])
           (s\<lparr>promises := Suc (promises s),
              requestId := requestId s + 1,
              pendingRequests := (pendingRequests s)(requestId s + 1 \<mapsto> promises s),
              outbox := ob,
              timers := tms\<rparr>)"
    (is "good ?ts ?s")
proof (rule goodI)
  let ?i = "requestId s + 1" and ?n = "promises s"
  have st: "settled ?s = settled s" by (simp add: settled_def)
  have fresh: "?n \<notin> settled s" using good_settled[OF g, of ?n] by auto
  have old: "pendingRequests s ?i = None"
    using good_pending[OF g, of ?i] by (cases "pendingRequests s ?i") auto
  have notn: "pendingRequests s j \<noteq> Some ?n" for j
    using good_pending[OF g, of j ?n] by auto
  show "\<forall>i p. pendingRequests ?s i = Some p \<longrightarrow>
         0 < i \<and> i \<le> requestId ?s \<and> p < promises ?s \<and> p \<notin> settled ?s"
  proof (intro allI impI)
    fix i p assume a: "pendingRequests ?s i = Some p"
    show "0 < i \<and> i \<le> requestId ?s \<and> p < promises ?s \<and> p \<notin> settled ?s"
    proof (cases "i = ?i")
      case True
      with a have "p = ?n" by simp
      with True fresh good_counter[OF g] show ?thesis by (simp add: st)
    next
      case False
      with a have "pendingRequests s i = Some p" by simp
      from good_pending[OF g this] show ?thesis by (simp add: st)
    qed
  qed
  show "\<forall>i j p. pendingRequests ?s i = Some p \<and> pendingRequests ?s j = Some p \<longrightarrow> i = j"
    using good_inj[OF g] notn by (auto split: if_splits)
  show "\<forall>tm \<in> set ?ts. fst (snd tm) \<le> requestId ?s \<and>
         (pendingRequests ?s (fst (snd tm)) = Some (snd (snd tm))
          \<or> pendingRequests ?s (fst (snd tm)) = None \<and> snd (snd tm) \<in> settled ?s)"
  proof
    fix tm assume "tm \<in> set ?ts"
    then consider "tm \<in> set ts" | "tm = (clock s + TIMEOUT_MS, ?i, ?n)" by auto
    then show "fst (snd tm) \<le> requestId ?s \<and>
         (pendingRequests ?s (fst (snd tm)) = Some (snd (snd tm))
          \<or> pendingRequests ?s (fst (snd tm)) = None \<and> snd (snd tm) \<in> settled ?s)"
    proof cases
      case 1
      from good_timer[OF g 1] show ?thesis by (auto simp: st)
    next
      case 2
      then show ?thesis by simp
    qed
  qed
  show "\<forall>p \<in> settled ?s. p < promises ?s"
    using good_settled[OF g] by (auto simp: st less_Suc_eq)
  show "distinct (map fst (settlements ?s))"
    using good_distinct[OF g] by simp
  show "\<forall>p < promises ?s. (\<exists>i. pendingRequests ?s i = Some p) \<or> p \<in> settled ?s"
  proof (intro allI impI)
    fix p assume "p < promises ?s"
    then consider "p = ?n" | "p < ?n" by (auto simp: less_Suc_eq)
    then show "(\<exists>i. pendingRequests ?s i = Some p) \<or> p \<in> settled ?s"
    proof cases
      case 1
      then have "pendingRequests ?s ?i = Some p" by simp
      then show ?thesis by blast
    next
      case 2
      from good_total[OF g 2] show ?thesis
      proof
        assume "\<exists>i. pendingRequests s i = Some p"
        then obtain i where i: "pendingRequests s i = Some p" ..
        with old have "i \<noteq> ?i" by auto
        with i have "pendingRequests ?s i = Some p" by simp
        then show ?thesis by blast
      next
        assume "p \<in> settled s"
        then show ?thesis by (simp add: st)
      qed
    qed
  qed
  show "\<forall>i p. pendingRequests ?s i = Some p \<longrightarrow>
         (\<exists>t. (t, i, p) \<in> set ?ts \<and> t \<le> clock ?s + TIMEOUT_MS)"
  proof (intro allI impI)
    fix i p assume a: "pendingRequests ?s i = Some p"
    show "\<exists>t. (t, i, p) \<in> set ?ts \<and> t \<le> clock ?s + TIMEOUT_MS"
    proof (cases "i = ?i")
      case True
      with a have "p = ?n" by simp
      with True show ?thesis by auto
    next
      case False
      with a have "pendingRequests s i = Some p" by simp
      from good_deadline[OF g this] show ?thesis by auto
    qed
  qed
  show "0 \<le> requestId ?s" using good_counter[OF g] by simp
qed

lemma good_frame [simp]:
  "good ts (s\<lparr>canvasClient := a\<rparr>) = good ts s"
  "good ts (s\<lparr>clients := b\<rparr>) = good ts s"
  "good ts (s\<lparr>timers := c\<rparr>) = good ts s"
  "good ts (s\<lparr>outbox := d\<rparr>) = good ts s"
  by (simp_all add: good_def settled_def)

lemma good_clock:
  assumes g: "good ts s" and le: "clock s \<le> n"
  shows "good ts (s\<lparr>clock := n\<rparr>)" (is "good ts ?s")
proof (rule goodI)
  have st: "settled ?s = settled s" by (simp add: settled_def)
  show "\<forall>i p. pendingRequests ?s i = Some p \<longrightarrow>
         (\<exists>t. (t, i, p) \<in> set ts \<and> t \<le> clock ?s + TIMEOUT_MS)"
  proof (intro allI impI)
    fix i p assume "pendingRequests ?s i = Some p"
    then have "pendingRequests s i = Some p" by simp
    from good_deadline[OF g this] obtain t
      where "(t, i, p) \<in> set ts" "t \<le> clock s + TIMEOUT_MS" by blast
    with le have "(t, i, p) \<in> set ts \<and> t \<le> clock ?s + TIMEOUT_MS" by simp
    then show "\<exists>t. (t, i, p) \<in> set ts \<and> t \<le> clock ?s + TIMEOUT_MS" ..
  qed
  show "\<forall>i p. pendingRequests ?s i = Some p \<longrightarrow>
         0 < i \<and> i \<le> requestId ?s \<and> p < promises ?s \<and> p \<notin> settled ?s"
    using good_pending[OF g] by (simp add: st)
  show "\<forall>i j p. pendingRequests ?s i = Some p \<and> pendingRequests ?s j = Some p \<longrightarrow> i = j"
    using good_inj[OF g] by auto
  show "\<forall>tm \<in> set ts. fst (snd tm) \<le> requestId ?s \<and>
         (pendingRequests ?s (fst (snd tm)) = Some (snd (snd tm))
          \<or> pendingRequests ?s (fst (snd tm)) = None \<and> snd (snd tm) \<in> settled ?s)"
    using good_timer[OF g] by (simp add: st)
  show "\<forall>p \<in> settled ?s. p < promises ?s"
    using good_settled[OF g] by (simp add: st)
  show "distinct (map fst (settlements ?s))"
    using good_distinct[OF g] by simp
  show "\<forall>p < promises ?s. (\<exists>i. pendingRequests ?s i = Some p) \<or> p \<in> settled ?s"
    using good_total[OF g] by (simp add: st)
  show "0 \<le> requestId ?s" using good_counter[OF g] by simp
qed

lemma on_timeout_frame [simp]:
  "timers (on_timeout i p s) = timers s"
  "clock (on_timeout i p s) = clock s"
  "requestId (on_timeout i p s) = requestId s"
  "canvasClient (on_timeout i p s) = canvasClient s"
  "clients (on_timeout i p s) = clients s"
  "outbox (on_timeout i p s) = outbox s"
  "promises (on_timeout i p s) = promises s"
  by (simp_all add: on_timeout_cases)

lemma fire_frame [simp]:
  "timers (fire due s) = timers s"
  "clock (fire due s) = clock s"
  "requestId (fire due s) = requestId s"
  "canvasClient (fire due s) = canvasClient s"
  "clients (fire due s) = clients s"
  "outbox (fire due s) = outbox s"
  "promises (fire due s) = promises s"
  by (induction due s rule: fire.induct) simp_all

lemma on_message_frame [simp]:
  "timers (on_message d s) = timers s"
  "clock (on_message d s) = clock s"
  "requestId (on_message d s) = requestId s"
  "canvasClient (on_message d s) = canvasClient s"
  "clients (on_message d s) = clients s"
  "outbox (on_message d s) = outbox s"
  "promises (on_message d s) = promises s"
  using on_message_cases[of d s] by auto

lemma timers_elapse: "timers (elapse d s) = filter (\<lambda>tm. \<not> is_due (clock s + d) tm) (timers s)"
  by (simp add: elapse_def Let_def)

lemma elapse_frame [simp]:
  "clock (elapse d s) = clock s + d"
  "requestId (elapse d s) = requestId s"
  "canvasClient (elapse d s) = canvasClient s"
  "clients (elapse d s) = clients s"
  "outbox (elapse d s) = outbox s"
  "promises (elapse d s) = promises s"
  by (simp_all add: elapse_def Let_def)

lemma inv_elapse: "inv s \<Longrightarrow> inv (elapse d s)"
proof -
  assume "inv s"
  let ?now = "clock s + d"
  let ?due = "filter (is_due ?now) (timers s)"
  let ?later = "filter (\<lambda>tm. \<not> is_due ?now tm) (timers s)"
  let ?s0 = "s\<lparr>clock := ?now, timers := ?later\<rparr>"
  from \<open>inv s\<close> have "good (timers s) s" by (simp add: inv_def)
  moreover have "set (timers s) = set (?due @ ?later)" by auto
  ultimately have "good (?due @ ?later) s" using good_set by blast
  then have "good (?due @ ?later) ?s0" by (simp add: good_clock)
  then have "good ?later (fire ?due ?s0)" by (rule good_fire)
  then show "inv (elapse d s)" by (simp add: inv_def elapse_def Let_def)
qed

lemma incr_mono: "n \<le> incr n"
  by (simp add: incr_def)

lemma requestId_sendToCanvas:
  "requestId (snd (sendToCanvas command params s)) =
     (case canvasClient s of None \<Rightarrow> requestId s | Some ws \<Rightarrow> incr (requestId s))"
  by (simp add: sendToCanvas_def Let_def split: option.splits)

lemma requestId_step: "requestId s \<le> requestId (step e s)"
  by (cases e)
     (simp_all add: on_connection_def on_close_def requestId_sendToCanvas incr_mono
        split: option.splits)

lemma requestId_run: "requestId s \<le> requestId (run evs s)"
proof (induction evs arbitrary: s)
  case Nil
  show ?case by simp
next
  case (Cons e evs)
  have "requestId s \<le> requestId (step e s)" by (rule requestId_step)
  also have "\<dots> \<le> requestId (run evs (step e s))" by (rule Cons.IH)
  finally show ?case by simp
qed

lemma inv_call:
  assumes i: "inv s" and r: "requestId (snd (sendToCanvas command params s)) < 2 ^ 53"
  shows "inv (snd (sendToCanvas command params s))"
proof (cases "canvasClient s")
  case None
  with i show ?thesis
    by (simp add: inv_def sendToCanvas_unavailable good_call_unavailable)
next
  case (Some ws)
  with r have "incr (requestId s) < 2 ^ 53" by (simp add: requestId_sendToCanvas)
  then have inc: "incr (requestId s) = requestId s + 1"
    by (simp add: incr_def split: if_splits)
  from i have "good (timers s) s" by (simp add: inv_def)
  from good_call_connected[OF this] Some show ?thesis
    by (simp add: inv_def sendToCanvas_connected inc)
qed

lemma inv_step: "inv s \<Longrightarrow> requestId (step e s) < 2 ^ 53 \<Longrightarrow> inv (step e s)"
proof (cases e)
  case (Connection ws)
  assume "inv s" then show ?thesis by (simp add: Connection inv_def on_connection_def)
next
  case (Message ws d)
  assume "inv s" then show ?thesis by (simp add: Message inv_def good_on_message)
next
  case (Close ws)
  assume "inv s" then show ?thesis by (simp add: Close inv_def on_close_def)
next
  case (Call command params)
  assume "inv s" "requestId (step e s) < 2 ^ 53"
  then show ?thesis by (simp add: Call inv_call)
next
  case (Elapse d)
  assume "inv s" then show ?thesis by (simp add: Elapse inv_elapse)
qed

lemma inv_init: "inv init"
  by (simp add: inv_def good_def init_def settled_def)

lemma inv_run: "inv s \<Longrightarrow> requestId (run evs s) < 2 ^ 53 \<Longrightarrow> inv (run evs s)"
proof (induction evs arbitrary: s)
  case Nil
  then show ?case by simp
next
  case (Cons e evs)
  have "requestId (step e s) \<le> requestId (run evs (step e s))" by (rule requestId_run)
  with Cons.prems have "requestId (step e s) < 2 ^ 53" by simp
  with Cons.prems have "inv (step e s)" by (simp add: inv_step)
  with Cons.prems show ?case by (simp add: Cons.IH)
qed

subsection \<open>Settlement, unavailability and the stale close\<close>

lemmas bridge_eval = init_def on_connection_def on_close_def on_message_def on_timeout_def
  sendToCanvas_def elapse_def is_due_def incr_def TIMEOUT_MS_def Let_def

lemma pending_on_timeout:
  "pendingRequests (on_timeout i p s) = (pendingRequests s)(i := None)"
  by (auto simp: on_timeout_cases)

lemma pending_fire:
  "pendingRequests (fire due s) j =
     (if j \<in> (\<lambda>tm. fst (snd tm)) ` set due then None else pendingRequests s j)"
proof (induction due arbitrary: s)
  case Nil
  show ?case by simp
next
  case (Cons tm due)
  obtain t i p where tm: "tm = (t, i, p)" by (cases tm)
  show ?case unfolding tm by (simp add: Cons.IH pending_on_timeout)
qed

lemma pending_elapse:
  "pendingRequests (elapse d s) j =
     (if j \<in> (\<lambda>tm. fst (snd tm)) ` set (filter (is_due (clock s + d)) (timers s))
      then None else pendingRequests s j)"
  by (simp add: elapse_def Let_def pending_fire)

lemma pending_after_timeout:
  assumes "inv s"
  shows "pendingRequests (elapse TIMEOUT_MS s) = Map.empty"
proof
  fix j
  show "pendingRequests (elapse TIMEOUT_MS s) j = None"
  proof (cases "pendingRequests s j")
    case None
    then show ?thesis by (simp add: pending_elapse)
  next
    case (Some p)
    from assms have "good (timers s) s" by (simp add: inv_def)
    from good_deadline[OF this Some] obtain t
      where t: "(t, j, p) \<in> set (timers s)" "t \<le> clock s + TIMEOUT_MS" by blast
    then have "(t, j, p) \<in> set (filter (is_due (clock s + TIMEOUT_MS)) (timers s))"
      by (simp add: is_due_def)
    then have "j \<in> (\<lambda>tm. fst (snd tm)) ` set (filter (is_due (clock s + TIMEOUT_MS)) (timers s))"
      by force
    then show ?thesis by (simp add: pending_elapse)
  qed
qed

lemma on_message_no_match: "\<not> matching s d \<Longrightarrow> on_message d s = s"
  by (cases "(s, d)" rule: matching.cases) (simp_all add: on_message_def)

lemma on_message_match:
  "pendingRequests s i = Some p \<Longrightarrow> i \<noteq> 0 \<Longrightarrow>
   on_message (Reply (Some i) res) s =
     s\<lparr>pendingRequests := (pendingRequests s)(i := None),
       settlements := settlements s @ [(p, Resolved res)]\<rparr>"
  by (simp add: on_message_def)

lemma inv_unique:
  assumes i: "inv s" and e: "pendingRequests s = Map.empty" and p: "p < promises s"
  shows "\<exists>!x. (p, x) \<in> set (settlements s)"
proof -
  from i have g: "good (timers s) s" by (simp add: inv_def)
  from good_total[OF g p] e have "p \<in> settled s" by simp
  then obtain x where x: "(p, x) \<in> set (settlements s)" by (auto simp: settled_def)
  moreover have "y = x" if "(p, y) \<in> set (settlements s)" for y
    using good_distinct[OF g] that x by (rule eq_key_imp_eq_value)
  ultimately show ?thesis by blast
qed

text \<open>
  Claim C1. In every state the server reaches while the counter is below \<open>2^53\<close>, no
  promise is settled twice, and a promise created by a submission is pending exactly
  when it is unsettled: an entry leaves the map by the reply that matches it or by its
  timeout, never both. A reply whose id is a key resolves that entry's promise and
  removes the entry; any other message (unknown id, id already resolved or timed out,
  no id, unparseable data) leaves the state as it was. Once the timeout has elapsed
  nothing is pending, and every promise created has exactly one settlement.
\<close>

theorem settled_exactly_once:
  assumes range: "requestId (run evs init) < 2 ^ 53"
  shows "let s = run evs init; s' = step (Elapse TIMEOUT_MS) s in
      distinct (map fst (settlements s))
    \<and> (\<forall>p < promises s.
          (\<exists>i. pendingRequests s i = Some p) \<longleftrightarrow> p \<notin> fst ` set (settlements s))
    \<and> (\<forall>ws i p res. pendingRequests s i = Some p \<longrightarrow>
          step (Message ws (Reply (Some i) res)) s =
            s\<lparr>pendingRequests := (pendingRequests s)(i := None),
              settlements := settlements s @ [(p, Resolved res)]\<rparr>)
    \<and> (\<forall>ws d. \<not> matching s d \<longrightarrow> step (Message ws d) s = s)
    \<and> pendingRequests s' = Map.empty
    \<and> (\<forall>p < promises s. \<exists>!x. (p, x) \<in> set (settlements s'))"
proof -
  let ?s = "run evs init" and ?s' = "step (Elapse TIMEOUT_MS) (run evs init)"
  have i: "inv ?s" using inv_init range by (rule inv_run)
  then have g: "good (timers ?s) ?s" by (simp add: inv_def)
  have i': "inv ?s'" using i by (simp add: inv_elapse)
  have 1: "distinct (map fst (settlements ?s))" using g by (rule good_distinct)
  have 2: "\<forall>p < promises ?s.
          (\<exists>i. pendingRequests ?s i = Some p) \<longleftrightarrow> p \<notin> fst ` set (settlements ?s)"
    using good_total[OF g] good_pending[OF g] unfolding settled_def by blast
  have 3: "\<forall>ws i p res. pendingRequests ?s i = Some p \<longrightarrow>
          step (Message ws (Reply (Some i) res)) ?s =
            ?s\<lparr>pendingRequests := (pendingRequests ?s)(i := None),
              settlements := settlements ?s @ [(p, Resolved res)]\<rparr>"
  proof (intro allI impI)
    fix ws :: socket and i p and res :: "'b option"
    assume pen: "pendingRequests ?s i = Some p"
    from good_pending[OF g pen] have "i \<noteq> 0" by simp
    with pen show "step (Message ws (Reply (Some i) res)) ?s =
            ?s\<lparr>pendingRequests := (pendingRequests ?s)(i := None),
              settlements := settlements ?s @ [(p, Resolved res)]\<rparr>"
      by (simp add: on_message_match)
  qed
  have 4: "\<forall>ws d. \<not> matching ?s d \<longrightarrow> step (Message ws d) ?s = ?s"
    by (simp add: on_message_no_match)
  have 5: "pendingRequests ?s' = Map.empty"
    using i by (simp add: pending_after_timeout)
  have 6: "\<forall>p < promises ?s. \<exists>!x. (p, x) \<in> set (settlements ?s')"
    using inv_unique[OF i' 5] by simp
  from 1 2 3 4 5 6 show ?thesis unfolding Let_def by (intro conjI)
qed

theorem settled_exactly_once_witness:
  "requestId (run [Connection 1, Call ''clear'' (), Message 1 (Reply (Some 1) (Some ''ok'')),
                   Call ''undo'' ()] (init :: (unit, string) bridge)) < 2 ^ 53
   \<and> (let s = run [Connection 1, Call ''clear'' (), Message 1 (Reply (Some 1) (Some ''ok'')),
                   Call ''undo'' ()] (init :: (unit, string) bridge)
      in settlements s = [(0, Resolved (Some ''ok''))]
       \<and> pendingRequests s 2 = Some 1
       \<and> step (Message 1 (Reply (Some 1) (Some ''again''))) s = s
       \<and> step (Message 1 (Reply (Some 9) None)) s = s
       \<and> step (Message 1 Garbled) s = s
       \<and> settlements (step (Message 1 (Reply (Some 2) (Some ''done''))) s) =
            [(0, Resolved (Some ''ok'')), (1, Resolved (Some ''done''))]
       \<and> pendingRequests (step (Elapse TIMEOUT_MS) s) = Map.empty
       \<and> settlements (step (Elapse TIMEOUT_MS) s) =
            [(0, Resolved (Some ''ok'')), (1, Rejected TimedOut)]
       \<and> step (Message 1 (Reply (Some 2) (Some ''late''))) (step (Elapse TIMEOUT_MS) s) =
            step (Elapse TIMEOUT_MS) s)"
  using settled_exactly_once[where evs = "[Connection 1, Call ''clear'' (),
          Message 1 (Reply (Some 1) (Some ''ok'')), Call ''undo'' ()] :: (unit, string) event list"]
  by (simp add: bridge_eval)

text \<open>
  Claim C2. A submission made while the renderer slot is empty rejects its promise
  with the not-connected error in the same step. The counter, the map of pending
  requests, the timers, the envelopes sent and the clock are unchanged, so the next
  submission after a renderer connects gets the id it would have got anyway.
\<close>

theorem submit_unavailable:
  assumes "canvasClient s = None"
  shows "let p = promises s; s' = snd (sendToCanvas command params s) in
      fst (sendToCanvas command params s) = p
    \<and> settlements s' = settlements s @ [(p, Rejected NotConnected)]
    \<and> requestId s' = requestId s
    \<and> pendingRequests s' = pendingRequests s
    \<and> timers s' = timers s \<and> outbox s' = outbox s \<and> clock s' = clock s
    \<and> canvasClient s' = None
    \<and> (\<forall>ws command2 params2.
          outbox (run [Connection ws, Call command2 params2] s') =
            outbox s @ [(ws, \<lparr>env_id = incr (requestId s), env_command = command2,
                               env_params = params2\<rparr>)]
        \<and> outbox (run [Connection ws, Call command2 params2] s) =
            outbox s @ [(ws, \<lparr>env_id = incr (requestId s), env_command = command2,
                               env_params = params2\<rparr>)])"
  using assms
  by (simp add: Let_def sendToCanvas_unavailable sendToCanvas_connected on_connection_def)

theorem submit_unavailable_witness:
  "canvasClient (init :: (unit, string) bridge) = None
   \<and> sendToCanvas ''clear'' () (init :: (unit, string) bridge) =
       (0, init\<lparr>promises := 1, settlements := [(0, Rejected NotConnected)]\<rparr>)
   \<and> requestId (snd (sendToCanvas ''clear'' () (init :: (unit, string) bridge))) = 0
   \<and> outbox (run [Connection 5, Call ''undo'' ()]
         (snd (sendToCanvas ''clear'' () (init :: (unit, string) bridge)))) =
       [(5, \<lparr>env_id = 1, env_command = ''undo'', env_params = ()\<rparr>)]"
  using submit_unavailable[of "init :: (unit, string) bridge" "''clear''" "()"]
  by (simp add: bridge_eval)

lemma canvasClient_sendToCanvas [simp]:
  "canvasClient (snd (sendToCanvas command params s)) = canvasClient s"
  by (simp add: sendToCanvas_def Let_def split: option.splits)

lemma clients_sendToCanvas [simp]:
  "clients (snd (sendToCanvas command params s)) = clients s"
  by (simp add: sendToCanvas_def Let_def split: option.splits)

lemma slot_stays_empty:
  "canvasClient s = None \<Longrightarrow> ws \<in> clients s \<Longrightarrow>
   \<forall>e \<in> set evs. \<not> is_connection e \<and> e \<noteq> Close ws \<Longrightarrow>
   canvasClient (run evs s) = None \<and> ws \<in> clients (run evs s)"
proof (induction evs arbitrary: s)
  case Nil
  then show ?case by simp
next
  case (Cons e evs)
  from Cons.prems have "canvasClient (step e s) = None \<and> ws \<in> clients (step e s)"
    by (cases e) (auto simp: on_close_def)
  with Cons.prems show ?case by (simp add: Cons.IH)
qed

text \<open>
  Claim C10. When a second socket connects while the first is still open, it takes the
  slot. When the first then closes, its handler empties the slot without looking at
  which socket is stored there. From then on, until another connection arrives, every
  submission is rejected as not connected, although the second socket is still open.
\<close>

theorem stale_close_empties_slot:
  assumes "ws1 \<noteq> ws2"
  shows "let s2 = run [Connection ws1, Connection ws2] s; s3 = step (Close ws1) s2 in
      canvasClient s2 = Some ws2 \<and> ws1 \<in> clients s2 \<and> ws2 \<in> clients s2
    \<and> canvasClient s3 = None \<and> ws2 \<in> clients s3
    \<and> (\<forall>evs command params.
          (\<forall>e \<in> set evs. \<not> is_connection e \<and> e \<noteq> Close ws2) \<longrightarrow>
          (let s4 = run evs s3 in
             ws2 \<in> clients s4 \<and>
             sendToCanvas command params s4 =
               (promises s4, s4\<lparr>promises := Suc (promises s4),
                  settlements := settlements s4 @ [(promises s4, Rejected NotConnected)]\<rparr>)))"
proof -
  let ?s2 = "run [Connection ws1, Connection ws2] s"
  let ?s3 = "step (Close ws1) ?s2"
  have a: "canvasClient ?s2 = Some ws2 \<and> ws1 \<in> clients ?s2 \<and> ws2 \<in> clients ?s2"
    by (simp add: on_connection_def)
  have b: "canvasClient ?s3 = None" "ws2 \<in> clients ?s3"
    using assms by (simp_all add: on_connection_def on_close_def)
  have c: "ws2 \<in> clients (run evs ?s3) \<and>
             sendToCanvas command params (run evs ?s3) =
               (promises (run evs ?s3), (run evs ?s3)\<lparr>promises := Suc (promises (run evs ?s3)),
                  settlements := settlements (run evs ?s3) @
                     [(promises (run evs ?s3), Rejected NotConnected)]\<rparr>)"
    if "\<forall>e \<in> set evs. \<not> is_connection e \<and> e \<noteq> Close ws2"
    for evs :: "('a, 'b) event list" and command and params :: 'a
    using slot_stays_empty[OF b that] by (simp add: sendToCanvas_unavailable)
  from a b c show ?thesis unfolding Let_def by blast
qed

theorem stale_close_empties_slot_witness:
  "(1 :: socket) \<noteq> 2
   \<and> canvasClient (run [Connection 1, Connection 2] (init :: (unit, string) bridge)) = Some 2
   \<and> canvasClient (run [Connection 1, Connection 2, Close 1] (init :: (unit, string) bridge)) = None
   \<and> 2 \<in> clients (run [Connection 1, Connection 2, Close 1] (init :: (unit, string) bridge))
   \<and> settlements (snd (sendToCanvas ''clear'' ()
        (run [Connection 1, Connection 2, Close 1, Elapse 5] (init :: (unit, string) bridge))))
       = [(0, Rejected NotConnected)]"
  using stale_close_empties_slot[of 1 2 "init :: (unit, string) bridge"]
  by (simp add: bridge_eval)


subsection \<open>Timeouts\<close>

lemma run_append: "run (xs @ ys) s = run ys (run xs s)"
  by (induction xs arbitrary: s) simp_all

lemma settlements_on_timeout:
  "settlements (on_timeout i p s) =
     (if pendingRequests s i = None then settlements s
      else settlements s @ [(p, Rejected TimedOut)])"
  by (simp add: on_timeout_cases)

lemma settlements_fire:
  "\<exists>xs. settlements (fire due s) = settlements s @ xs \<and> (\<forall>x \<in> set xs. snd x = Rejected TimedOut)"
proof (induction due arbitrary: s)
  case Nil
  show ?case by simp
next
  case (Cons tm due)
  obtain t i p where tm: "tm = (t, i, p)" by (cases tm)
  from Cons.IH[of "on_timeout i p s"] obtain xs
    where xs: "settlements (fire due (on_timeout i p s)) = settlements (on_timeout i p s) @ xs"
      "\<forall>x \<in> set xs. snd x = Rejected TimedOut" by blast
  show ?case
  proof (cases "pendingRequests s i = None")
    case True
    with xs show ?thesis unfolding tm by (auto simp: settlements_on_timeout)
  next
    case False
    with xs have "settlements (fire (tm # due) s) = settlements s @ ((p, Rejected TimedOut) # xs)
        \<and> (\<forall>x \<in> set ((p, Rejected TimedOut) # xs). snd x = Rejected TimedOut)"
      unfolding tm by (simp add: settlements_on_timeout)
    then show ?thesis by blast
  qed
qed

lemma settlements_fire_grow: "set (settlements s) \<subseteq> set (settlements (fire due s))"
  using settlements_fire[of due s] by auto

lemma fire_rejects:
  "(T, i, p) \<in> set due \<Longrightarrow> pendingRequests s i \<noteq> None \<Longrightarrow>
   \<forall>tm \<in> set due. fst (snd tm) = i \<longrightarrow> tm = (T, i, p) \<Longrightarrow>
   (p, Rejected TimedOut) \<in> set (settlements (fire due s))"
proof (induction due arbitrary: s)
  case Nil
  then show ?case by simp
next
  case (Cons tm due)
  obtain t j q where tm: "tm = (t, j, q)" by (cases tm)
  show ?case
  proof (cases "j = i")
    case True
    with Cons.prems(3) have eq: "tm = (T, i, p)" by (simp add: tm)
    from Cons.prems(2) have "(p, Rejected TimedOut) \<in> set (settlements (on_timeout i p s))"
      by (auto simp: settlements_on_timeout)
    then have "(p, Rejected TimedOut) \<in> set (settlements (fire due (on_timeout i p s)))"
      using settlements_fire_grow by blast
    then show ?thesis by (simp add: eq)
  next
    case False
    with Cons.prems(1) have 1: "(T, i, p) \<in> set due" by (auto simp: tm)
    from False Cons.prems(2) have 2: "pendingRequests (on_timeout j q s) i \<noteq> None"
      by (simp add: pending_on_timeout)
    from Cons.prems(3) have 3: "\<forall>tm \<in> set due. fst (snd tm) = i \<longrightarrow> tm = (T, i, p)" by simp
    from Cons.IH[OF 1 2 3] show ?thesis by (simp add: tm)
  qed
qed

lemma settlements_elapse:
  "\<exists>xs. settlements (elapse d s) = settlements s @ xs \<and> (\<forall>x \<in> set xs. snd x = Rejected TimedOut)"
  using settlements_fire[of "filter (is_due (clock s + d)) (timers s)"
          "s\<lparr>clock := clock s + d,
             timers := filter (\<lambda>tm. \<not> is_due (clock s + d) tm) (timers s)\<rparr>"]
  by (simp add: elapse_def Let_def)

lemma awaitsI:
  "i \<le> requestId s \<Longrightarrow>
   \<forall>tm \<in> set (timers s). fst (snd tm) = i \<longrightarrow> tm = (T, i, p) \<Longrightarrow>
   (clock s < T \<Longrightarrow> pendingRequests s i = Some p \<and> (T, i, p) \<in> set (timers s)) \<Longrightarrow>
   (\<not> clock s < T \<Longrightarrow>
      pendingRequests s i = None \<and> (p, Rejected TimedOut) \<in> set (settlements s)) \<Longrightarrow>
   awaits T i p s"
  unfolding awaits_def by (cases "clock s < T") (simp_all only: if_True if_False simp_thms)

lemma awaits_counter: "awaits T i p s \<Longrightarrow> i \<le> requestId s"
  unfolding awaits_def by (elim conjE)

lemma awaits_only:
  "awaits T i p s \<Longrightarrow> tm \<in> set (timers s) \<Longrightarrow> fst (snd tm) = i \<Longrightarrow> tm = (T, i, p)"
  unfolding awaits_def by (elim conjE) (erule ballE[of _ _ tm], blast+)

lemma awaits_before:
  "awaits T i p s \<Longrightarrow> clock s < T \<Longrightarrow>
     pendingRequests s i = Some p \<and> (T, i, p) \<in> set (timers s)"
  unfolding awaits_def by (elim conjE) (simp only: if_True)

lemma awaits_after:
  "awaits T i p s \<Longrightarrow> \<not> clock s < T \<Longrightarrow>
     pendingRequests s i = None \<and> (p, Rejected TimedOut) \<in> set (settlements s)"
  unfolding awaits_def by (elim conjE) (simp only: if_False)

lemma awaits_elapse:
  assumes a: "awaits T i p s"
  shows "awaits T i p (elapse d s)"
proof (rule awaitsI)
  let ?now = "clock s + d"
  let ?due = "filter (is_due ?now) (timers s)"
  let ?s0 = "s\<lparr>clock := ?now, timers := filter (\<lambda>tm. \<not> is_due ?now tm) (timers s)\<rparr>"
  have el: "elapse d s = fire ?due ?s0" by (simp add: elapse_def Let_def)
  show "i \<le> requestId (elapse d s)" using awaits_counter[OF a] by simp
  show "\<forall>tm \<in> set (timers (elapse d s)). fst (snd tm) = i \<longrightarrow> tm = (T, i, p)"
  proof (intro ballI impI)
    fix tm assume "tm \<in> set (timers (elapse d s))" and "fst (snd tm) = i"
    then have "tm \<in> set (timers s)" by (simp add: timers_elapse)
    then show "tm = (T, i, p)" using \<open>fst (snd tm) = i\<close> by (rule awaits_only[OF a])
  qed
  show "pendingRequests (elapse d s) i = Some p \<and> (T, i, p) \<in> set (timers (elapse d s))"
    if now: "clock (elapse d s) < T"
  proof -
    from now have lt: "?now < T" by simp
    then have "clock s < T" by simp
    from awaits_before[OF a this]
    have pen: "pendingRequests s i = Some p" and tm: "(T, i, p) \<in> set (timers s)" by simp_all
    have "i \<notin> (\<lambda>tm. fst (snd tm)) ` set ?due"
    proof
      assume "i \<in> (\<lambda>tm. fst (snd tm)) ` set ?due"
      then obtain tm' where tm': "tm' \<in> set (timers s)" "is_due ?now tm'" "fst (snd tm') = i"
        by auto
      from awaits_only[OF a tm'(1) tm'(3)] have "tm' = (T, i, p)" .
      with tm'(2) lt show False by (simp add: is_due_def)
    qed
    then have "pendingRequests (elapse d s) i = Some p"
      by (simp add: pending_elapse pen)
    moreover have "(T, i, p) \<in> set (timers (elapse d s))"
      using tm lt by (simp add: timers_elapse is_due_def)
    ultimately show ?thesis by simp
  qed
  show "pendingRequests (elapse d s) i = None
          \<and> (p, Rejected TimedOut) \<in> set (settlements (elapse d s))"
    if now: "\<not> clock (elapse d s) < T"
  proof (cases "clock s < T")
    case True
    from awaits_before[OF a this]
    have pen: "pendingRequests s i = Some p" and tm: "(T, i, p) \<in> set (timers s)" by simp_all
    from now have "T \<le> ?now" by simp
    then have due: "(T, i, p) \<in> set ?due" using tm by (simp add: is_due_def)
    then have "i \<in> (\<lambda>tm. fst (snd tm)) ` set ?due" by force
    then have 1: "pendingRequests (elapse d s) i = None" by (simp add: pending_elapse)
    have "(p, Rejected TimedOut) \<in> set (settlements (fire ?due ?s0))"
      using due
    proof (rule fire_rejects)
      show "pendingRequests ?s0 i \<noteq> None" using pen by simp
      show "\<forall>tm \<in> set ?due. fst (snd tm) = i \<longrightarrow> tm = (T, i, p)"
        using awaits_only[OF a] by simp
    qed
    then have 2: "(p, Rejected TimedOut) \<in> set (settlements (elapse d s))" by (simp only: el)
    from 1 2 show ?thesis by simp
  next
    case False
    from awaits_after[OF a this] have pen: "pendingRequests s i = None"
      and rej: "(p, Rejected TimedOut) \<in> set (settlements s)" by simp_all
    have 1: "pendingRequests (elapse d s) i = None" by (simp add: pending_elapse pen)
    from settlements_elapse[of d s] obtain xs
      where "settlements (elapse d s) = settlements s @ xs" by blast
    with rej have 2: "(p, Rejected TimedOut) \<in> set (settlements (elapse d s))" by simp
    from 1 2 show ?thesis by simp
  qed
qed

lemma awaits_frame:
  assumes a: "awaits T i p s"
    and f: "requestId s \<le> requestId s'" "clock s' = clock s"
      "pendingRequests s' i = pendingRequests s i"
      "set (settlements s) \<subseteq> set (settlements s')"
      "set (timers s) \<subseteq> set (timers s')"
      "\<forall>tm \<in> set (timers s') - set (timers s). fst (snd tm) \<noteq> i"
  shows "awaits T i p s'"
proof (rule awaitsI)
  show "i \<le> requestId s'" using awaits_counter[OF a] f(1) by simp
  show "\<forall>tm \<in> set (timers s'). fst (snd tm) = i \<longrightarrow> tm = (T, i, p)"
  proof (intro ballI impI)
    fix tm assume tm: "tm \<in> set (timers s')" and i: "fst (snd tm) = i"
    with f(6) have "tm \<in> set (timers s)" by blast
    then show "tm = (T, i, p)" using i by (rule awaits_only[OF a])
  qed
  show "pendingRequests s' i = Some p \<and> (T, i, p) \<in> set (timers s')" if "clock s' < T"
  proof -
    from that have "clock s < T" by (simp add: f(2))
    from awaits_before[OF a this] f(3) f(5) show ?thesis by auto
  qed
  show "pendingRequests s' i = None \<and> (p, Rejected TimedOut) \<in> set (settlements s')"
    if "\<not> clock s' < T"
  proof -
    from that have "\<not> clock s < T" by (simp add: f(2))
    from awaits_after[OF a this] f(3) f(4) show ?thesis by auto
  qed
qed

lemma awaits_step:
  assumes a: "awaits T i p s" and r: "requestId (step e s) < 2 ^ 53" and q: "\<not> replies_to i e"
  shows "awaits T i p (step e s)"
proof (cases e)
  case (Connection ws)
  show ?thesis unfolding Connection by (rule awaits_frame[OF a]) (simp_all add: on_connection_def)
next
  case (Close ws)
  show ?thesis unfolding Close by (rule awaits_frame[OF a]) (simp_all add: on_close_def)
next
  case (Elapse d)
  with a show ?thesis by (simp add: awaits_elapse)
next
  case (Message ws d)
  from on_message_cases[of d s] show ?thesis
  proof
    assume "on_message d s = s"
    with a show ?thesis by (simp add: Message)
  next
    assume "\<exists>j q res. d = Reply (Some j) res \<and> j \<noteq> 0 \<and> pendingRequests s j = Some q \<and>
        on_message d s = settle j q (Resolved res) s"
    then obtain j q' res where d: "d = Reply (Some j) res"
      and eq: "on_message d s = settle j q' (Resolved res) s" by blast
    from q have ji: "j \<noteq> i" by (simp add: Message d)
    have "awaits T i p (settle j q' (Resolved res) s)"
      by (rule awaits_frame[OF a]) (use ji in auto)
    then show ?thesis by (simp add: Message eq)
  qed
next
  case (Call command params)
  show ?thesis
  proof (cases "canvasClient s")
    case None
    show ?thesis unfolding Call
      by (rule awaits_frame[OF a]) (auto simp: sendToCanvas_unavailable[OF None])
  next
    case (Some ws)
    with r have "incr (requestId s) < 2 ^ 53" by (simp add: Call requestId_sendToCanvas)
    then have inc: "incr (requestId s) = requestId s + 1"
      by (simp add: incr_def split: if_splits)
    from awaits_counter[OF a] have ne: "requestId s + 1 \<noteq> i" by simp
    show ?thesis unfolding Call
      by (rule awaits_frame[OF a]) (use ne in \<open>auto simp: sendToCanvas_connected[OF Some] inc\<close>)
  qed
qed

lemma awaits_run:
  "awaits T i p s \<Longrightarrow> requestId (run evs s) < 2 ^ 53 \<Longrightarrow>
   \<forall>e \<in> set evs. \<not> replies_to i e \<Longrightarrow> awaits T i p (run evs s)"
proof (induction evs arbitrary: s)
  case Nil
  then show ?case by simp
next
  case (Cons e evs)
  have "requestId (step e s) \<le> requestId (run evs (step e s))" by (rule requestId_run)
  with Cons.prems have "requestId (step e s) < 2 ^ 53" by simp
  with Cons.prems have "awaits T i p (step e s)" by (simp add: awaits_step)
  with Cons.prems show ?case by (simp add: Cons.IH)
qed

lemma awaits_submitted:
  assumes i: "inv s" and c: "canvasClient s = Some ws" and r: "requestId s < 2 ^ 53"
  shows "awaits (clock s + TIMEOUT_MS) (requestId s + 1) (promises s)
           (snd (sendToCanvas command params s))"
proof (rule awaitsI)
  let ?s' = "snd (sendToCanvas command params s)"
  from r have inc: "incr (requestId s) = requestId s + 1" by (simp add: incr_def)
  from i have g: "good (timers s) s" by (simp add: inv_def)
  have old: "fst (snd tm) \<noteq> requestId s + 1" if "tm \<in> set (timers s)" for tm
    using good_timer[OF g that] by simp
  have tms: "timers ?s' = timers s @ [(clock s + TIMEOUT_MS, requestId s + 1, promises s)]"
    by (simp add: sendToCanvas_connected[OF c] inc)
  show "requestId s + 1 \<le> requestId ?s'" by (simp add: sendToCanvas_connected[OF c] inc)
  show "\<forall>tm \<in> set (timers ?s'). fst (snd tm) = requestId s + 1 \<longrightarrow>
          tm = (clock s + TIMEOUT_MS, requestId s + 1, promises s)"
    using old by (auto simp: tms)
  show "pendingRequests ?s' (requestId s + 1) = Some (promises s)
        \<and> (clock s + TIMEOUT_MS, requestId s + 1, promises s) \<in> set (timers ?s')"
    by (simp add: tms) (simp add: sendToCanvas_connected[OF c] inc)
  show "pendingRequests ?s' (requestId s + 1) = None
        \<and> (promises s, Rejected TimedOut) \<in> set (settlements ?s')"
    if "\<not> clock ?s' < clock s + TIMEOUT_MS"
    using that by (simp add: sendToCanvas_connected[OF c] TIMEOUT_MS_def)
qed

lemma outcome_none: "outcome s p = None \<longleftrightarrow> p \<notin> settled s"
  by (simp add: outcome_def settled_def map_of_eq_None_iff)

lemma outcome_some:
  "distinct (map fst (settlements s)) \<Longrightarrow> (p, x) \<in> set (settlements s) \<Longrightarrow>
   outcome s p = Some x"
  by (simp add: outcome_def)

lemma new_rejections:
  assumes new: "(q, Rejected f) \<in> set (settlements (step e t)) - set (settlements t)"
  shows "(f = NotConnected \<and> canvasClient t = None \<and> (\<exists>c ps. e = Call c ps))
       \<or> (f = TimedOut \<and> (\<exists>d. e = Elapse d))"
proof (cases e)
  case (Connection ws)
  with new show ?thesis by (simp add: on_connection_def)
next
  case (Close ws)
  with new show ?thesis by (simp add: on_close_def)
next
  case (Message ws d)
  from on_message_cases[of d t] new show ?thesis unfolding Message by auto
next
  case (Call c ps)
  show ?thesis
  proof (cases "canvasClient t")
    case None
    with new show ?thesis by (auto simp: Call sendToCanvas_unavailable)
  next
    case (Some ws)
    with new show ?thesis by (simp add: Call sendToCanvas_connected)
  qed
next
  case (Elapse d)
  from settlements_elapse[of d t] obtain xs
    where xs: "settlements (elapse d t) = settlements t @ xs"
      "\<forall>x \<in> set xs. snd x = Rejected TimedOut" by blast
  from new have "(q, Rejected f) \<in> set xs" by (auto simp: Elapse xs(1))
  with xs(2) have "f = TimedOut" by force
  then show ?thesis by (simp add: Elapse)
qed

text \<open>
  Claim C3. A command submitted to a connected renderer gets the next id and a deadline
  10000 milliseconds (ten seconds) after the submission. As long as no reply with that id
  arrives and the counter stays below \<open>2^53\<close>: before the deadline the request is pending
  and its promise unsettled; from the deadline on the entry is gone and the promise is
  rejected with the timeout error. A step adds a rejection only when it is a submission
  with an empty slot (not connected) or the passing of time (timed out). A reply that
  matches resolves the promise with whatever payload it carries, an error object included.
\<close>

theorem timeout_rejects:
  assumes conn: "canvasClient (run evs0 init) = Some ws"
    and quiet: "\<forall>e \<in> set evs. \<not> replies_to (requestId (run evs0 init) + 1) e"
    and range: "requestId (run (evs0 @ Call command params # evs) init) < 2 ^ 53"
  shows "let s = (run evs0 init :: ('p, 'r) bridge); i = requestId s + 1; p = promises s;
             s' = run (evs0 @ Call command params # evs) init in
      sendToCanvas command params s = (p, step (Call command params) s)
    \<and> outbox (step (Call command params) s) =
         outbox s @ [(ws, \<lparr>env_id = i, env_command = command, env_params = params\<rparr>)]
    \<and> (clock s' < clock s + 10000 \<longrightarrow> pendingRequests s' i = Some p \<and> outcome s' p = None)
    \<and> (clock s + 10000 \<le> clock s' \<longrightarrow>
          pendingRequests s' i = None \<and> outcome s' p = Some (Rejected TimedOut))
    \<and> (\<forall>e (t :: ('p, 'r) bridge) q f.
          (q, Rejected f) \<in> set (settlements (step e t)) - set (settlements t) \<longrightarrow>
          (f = NotConnected \<and> canvasClient t = None \<and> (\<exists>c ps. e = Call c ps))
        \<or> (f = TimedOut \<and> (\<exists>d. e = Elapse d)))
    \<and> (\<forall>ws' j q res (t :: ('p, 'r) bridge). pendingRequests t j = Some q \<and> j \<noteq> 0 \<longrightarrow>
          settlements (step (Message ws' (Reply (Some j) res)) t) =
            settlements t @ [(q, Resolved res)])"
proof -
  let ?s = "run evs0 init :: ('p, 'r) bridge"
  let ?s1 = "step (Call command params) ?s"
  let ?s' = "run (evs0 @ Call command params # evs) init"
  let ?i = "requestId ?s + 1" and ?p = "promises ?s"
  have s': "?s' = run evs ?s1" by (simp add: run_append)
  have "requestId ?s1 \<le> requestId ?s'" unfolding s' by (rule requestId_run)
  with range have r1: "requestId ?s1 < 2 ^ 53" by simp
  then have "incr (requestId ?s) < 2 ^ 53" using conn by (simp add: requestId_sendToCanvas)
  then have r0: "requestId ?s < 2 ^ 53" and inc: "incr (requestId ?s) = requestId ?s + 1"
    by (simp_all add: incr_def split: if_splits)
  have i0: "inv ?s" using inv_init r0 by (rule inv_run)
  have i': "inv ?s'" using inv_init range by (rule inv_run)
  then have g': "good (timers ?s') ?s'" by (simp add: inv_def)
  have "awaits (clock ?s + TIMEOUT_MS) ?i ?p ?s1"
    using awaits_submitted[OF i0 conn r0] by simp
  then have aw: "awaits (clock ?s + TIMEOUT_MS) ?i ?p ?s'"
    unfolding s' using range quiet by (simp add: awaits_run s')
  have 1: "sendToCanvas command params ?s = (?p, ?s1)"
    by (simp add: sendToCanvas_connected[OF conn])
  have 2: "outbox ?s1 =
         outbox ?s @ [(ws, \<lparr>env_id = ?i, env_command = command, env_params = params\<rparr>)]"
    by (simp add: sendToCanvas_connected[OF conn] inc)
  have 3: "pendingRequests ?s' ?i = Some ?p \<and> outcome ?s' ?p = None"
    if "clock ?s' < clock ?s + 10000"
  proof -
    from that have "clock ?s' < clock ?s + TIMEOUT_MS" by (simp add: TIMEOUT_MS_def)
    from awaits_before[OF aw this] have pen: "pendingRequests ?s' ?i = Some ?p" by simp
    from good_pending[OF g' pen] have "?p \<notin> settled ?s'" by simp
    with pen show ?thesis by (simp add: outcome_none)
  qed
  have 4: "pendingRequests ?s' ?i = None \<and> outcome ?s' ?p = Some (Rejected TimedOut)"
    if "clock ?s + 10000 \<le> clock ?s'"
  proof -
    from that have "\<not> clock ?s' < clock ?s + TIMEOUT_MS" by (simp add: TIMEOUT_MS_def)
    from awaits_after[OF aw this] have pen: "pendingRequests ?s' ?i = None"
      and rej: "(?p, Rejected TimedOut) \<in> set (settlements ?s')" by simp_all
    from good_distinct[OF g'] rej have "outcome ?s' ?p = Some (Rejected TimedOut)"
      by (rule outcome_some)
    with pen show ?thesis by simp
  qed
  have 5: "\<forall>e (t :: ('p, 'r) bridge) q f.
          (q, Rejected f) \<in> set (settlements (step e t)) - set (settlements t) \<longrightarrow>
          (f = NotConnected \<and> canvasClient t = None \<and> (\<exists>c ps. e = Call c ps))
        \<or> (f = TimedOut \<and> (\<exists>d. e = Elapse d))"
    using new_rejections by blast
  have 6: "\<forall>ws' j q res (t :: ('p, 'r) bridge). pendingRequests t j = Some q \<and> j \<noteq> 0 \<longrightarrow>
          settlements (step (Message ws' (Reply (Some j) res)) t) =
            settlements t @ [(q, Resolved res)]"
    by (simp add: on_message_match)
  from 1 2 3 4 5 6 show ?thesis unfolding Let_def by (intro conjI impI) blast+
qed

theorem timeout_rejects_witness:
  "canvasClient (run [Connection 1] (init :: (number params, number result) bridge)) = Some 1
   \<and> \<not> replies_to (requestId (run [Connection 1] (init :: (number params, number result) bridge)) + 1)
         (Elapse 4000 :: (number params, number result) event)
   \<and> \<not> replies_to (requestId (run [Connection 1] (init :: (number params, number result) bridge)) + 1)
         (Message 1 (Reply (Some 7) None) :: (number params, number result) event)
   \<and> \<not> replies_to (requestId (run [Connection 1] (init :: (number params, number result) bridge)) + 1)
         (Elapse 6000 :: (number params, number result) event)
   \<and> requestId (run ([Connection 1] @ Call ''fly'' NoParams #
          [Elapse 4000, Message 1 (Reply (Some 7) None), Elapse 6000])
          (init :: (number params, number result) bridge)) < 2 ^ 53
   \<and> outcome (run [Connection 1, Call ''fly'' NoParams, Elapse 4000,
                    Message 1 (Reply (Some 7) None)] (init :: (number params, number result) bridge)) 0 = None
   \<and> outcome (run [Connection 1, Call ''fly'' NoParams, Elapse 4000,
                    Message 1 (Reply (Some 7) None), Elapse 6000]
                   (init :: (number params, number result) bridge)) 0 = Some (Rejected TimedOut)
   \<and> onmessage ieee page_api empty_canvas \<lparr>cmd_id = 1, cmd_command = ''fly'', cmd_params = NoParams\<rparr>
       = (Some (Reply (Some 1) (Some (Error ''Unknown command: fly''))), empty_canvas)
   \<and> outcome (run [Connection 1, Call ''fly'' NoParams, Elapse 4000,
                    Message 1 (Reply (Some 1) (Some (Error ''Unknown command: fly'')))]
                   (init :: (number params, number result) bridge)) 0
       = Some (Resolved (Some (Error ''Unknown command: fly'')))"
  using timeout_rejects[where evs0 = "[Connection 1] :: (number params, number result) event list"
          and ws = 1 and evs = "[Elapse 4000, Message 1 (Reply (Some 7) None), Elapse 6000]"
          and command = "''fly''" and params = NoParams]
        timeout_rejects[where evs0 = "[Connection 1] :: (number params, number result) event list"
          and ws = 1 and evs = "[Elapse 4000, Message 1 (Reply (Some 7) None)]"
          and command = "''fly''" and params = NoParams]
  by (simp add: bridge_eval outcome_def onmessage_def handleCommand_unknown)


end
